theory Spec2Isabelle
  imports Complex_Main "HOL-Library.Multiset"
begin

section \<open>JavaScript string primitives\<close>

text \<open>
  Strings are lists of characters.  The model covers ASCII text: \<open>toUpperCase\<close> and
  \<open>toLowerCase\<close> act on the 26 letters and leave every other character alone, and the
  white space of \<open>trim\<close> and of the regular-expression class \<open>\s\<close> is TAB, LF, VT, FF, CR
  and SPACE.  A character of a JavaScript string is a UTF-16 code unit; upper-casing outside
  ASCII (which can change the length of a string) is not modelled.
\<close>

definition isDigit :: "char \<Rightarrow> bool" where
  "isDigit c = (c \<in> set ''0123456789'')"

definition isSpace :: "char \<Rightarrow> bool" where
  "isSpace c = (c \<in> set [CHR 0x09, CHR 0x0A, CHR 0x0B, CHR 0x0C, CHR 0x0D, CHR '' ''])"

definition toUpperChar :: "char \<Rightarrow> char" where
  "toUpperChar c =
     (case map_of (zip ''abcdefghijklmnopqrstuvwxyz'' ''ABCDEFGHIJKLMNOPQRSTUVWXYZ'') c of
        Some u \<Rightarrow> u
      | None \<Rightarrow> c)"

definition toLowerChar :: "char \<Rightarrow> char" where
  "toLowerChar c =
     (case map_of (zip ''ABCDEFGHIJKLMNOPQRSTUVWXYZ'' ''abcdefghijklmnopqrstuvwxyz'') c of
        Some l \<Rightarrow> l
      | None \<Rightarrow> c)"

definition toUpperCase :: "string \<Rightarrow> string" where
  "toUpperCase s = map toUpperChar s"

definition toLowerCase :: "string \<Rightarrow> string" where
  "toLowerCase s = map toLowerChar s"

definition trim :: "string \<Rightarrow> string" where
  "trim s = rev (dropWhile isSpace (rev (dropWhile isSpace s)))"

text \<open>\<open>s.startsWith(p)\<close>, \<open>s.endsWith(p)\<close> and \<open>s.includes(p)\<close>.\<close>

fun startsWith :: "string \<Rightarrow> string \<Rightarrow> bool" where
  "startsWith s [] = True"
| "startsWith [] (p # ps) = False"
| "startsWith (c # cs) (p # ps) = (c = p \<and> startsWith cs ps)"

definition endsWith :: "string \<Rightarrow> string \<Rightarrow> bool" where
  "endsWith s p = startsWith (rev s) (rev p)"

fun includesStr :: "string \<Rightarrow> string \<Rightarrow> bool" where
  "includesStr [] p = (p = [])"
| "includesStr (c # cs) p = (startsWith (c # cs) p \<or> includesStr cs p)"

text \<open>\<open>s.padStart(n, "0")\<close>: a string of length \<open>n\<close> or more is returned as it is.\<close>

definition padStart0 :: "nat \<Rightarrow> string \<Rightarrow> string" where
  "padStart0 n s = replicate (n - length s) (CHR ''0'') @ s"

text \<open>
  \<open>Array.from(new Set(xs))\<close>: the elements of \<open>xs\<close> in the order of their first
  occurrence, every later duplicate dropped.
\<close>

fun uniqFrom :: "'a list \<Rightarrow> 'a list \<Rightarrow> 'a list" where
  "uniqFrom seen [] = []"
| "uniqFrom seen (x # xs) =
     (if x \<in> set seen then uniqFrom seen xs else x # uniqFrom (x # seen) xs)"

definition uniq :: "'a list \<Rightarrow> 'a list" where
  "uniq xs = uniqFrom [] xs"

text \<open>
  \<open>xs.sort(cmp)\<close> is a stable sort.  The comparator is given as the relation
  \<open>le a b \<longleftrightarrow> cmp(a, b) \<le> 0\<close>; insertion from the right keeps equal elements in their
  input order.
\<close>

fun insertBy :: "('a \<Rightarrow> 'a \<Rightarrow> bool) \<Rightarrow> 'a \<Rightarrow> 'a list \<Rightarrow> 'a list" where
  "insertBy le x [] = [x]"
| "insertBy le x (y # ys) = (if le x y then x # y # ys else y # insertBy le x ys)"

definition sortBy :: "('a \<Rightarrow> 'a \<Rightarrow> bool) \<Rightarrow> 'a list \<Rightarrow> 'a list" where
  "sortBy le xs = foldr (insertBy le) xs []"

text \<open>
  A regular expression with the global flag, run over a text by \<open>match\<close>, \<open>replace\<close> or an
  \<open>exec\<close> loop: \<open>re s\<close> tells whether the expression matches at the start of \<open>s\<close>, and
  gives the length of the match and what the call keeps of it.  The search goes left to
  right and resumes behind each match; the counter is the number of characters of the last
  match still ahead.  Every expression of this program matches at least one character.
\<close>

fun execAll :: "(string \<Rightarrow> (nat \<times> 'm) option) \<Rightarrow> nat \<Rightarrow> string \<Rightarrow> 'm list" where
  "execAll re k [] = []"
| "execAll re (Suc k) (c # cs) = execAll re k cs"
| "execAll re 0 (c # cs) =
     (case re (c # cs) of
        Some (n, m) \<Rightarrow> m # execAll re (n - 1) cs
      | None \<Rightarrow> execAll re 0 cs)"

section \<open>Canonical ids and symbol variants\<close>

text \<open>\<open>pad10\<close> of the lookup and suggest routes; the argument is \<open>String(cik)\<close>.\<close>

definition pad10 :: "string \<Rightarrow> string" where
  "pad10 cik = (let s = filter isDigit cik in padStart0 10 s)"

text \<open>\<open>zeroPadCIK\<close> of the filings route.\<close>

definition zeroPadCIK :: "string \<Rightarrow> string" where
  "zeroPadCIK cik = padStart0 10 cik"

text \<open>The replacement \<open>replace(/[-.]/g, "")\<close>, which yields the plain key.\<close>

definition plainKey :: "string \<Rightarrow> string" where
  "plainKey s = filter (\<lambda>c. c \<noteq> CHR ''-'' \<and> c \<noteq> CHR ''.'') s"

definition norms :: "string \<Rightarrow> string list" where
  "norms symb =
     (let u = trim (toUpperCase symb);
          noDots = filter (\<lambda>c. c \<noteq> CHR ''.'') u;
          dash = map (\<lambda>c. if c = CHR ''.'' then CHR ''-'' else c) u;
          plain = plainKey u
      in uniq [u, dash, noDots, plain, plain])"

section \<open>The resilient fetcher\<close>

text \<open>
  One call of \<open>fetch\<close> followed by \<open>r.json()\<close> ends in one of four ways.  The upstream
  service is a function from the number of the attempt to its outcome.
\<close>

datatype 'j attempt =
    TransportError string
  | HttpStatus string
  | ParseFailure string
  | OkJson 'j

record 'j fetched =
  outcome :: "string + 'j"
  attempts :: nat
  slept :: nat

text \<open>
  The loop of \<open>fetchJSON\<close>: \<open>n\<close> iterations are left, \<open>i\<close> fetches were made, \<open>err\<close> is the
  last error caught.  All three failures are thrown inside the \<open>try\<close> block and land in
  the same \<open>catch\<close>.
\<close>

fun fetchLoop ::
  "(nat \<Rightarrow> 'j attempt) \<Rightarrow> nat \<Rightarrow> nat \<Rightarrow> nat \<Rightarrow> nat \<Rightarrow> string option \<Rightarrow> 'j fetched" where
  "fetchLoop upstream 0 i delay ms err =
     \<lparr>outcome = Inl (case err of Some e \<Rightarrow> e | None \<Rightarrow> ''fetch_failed''),
      attempts = i, slept = ms\<rparr>"
| "fetchLoop upstream (Suc n) i delay ms err =
     (case upstream i of
        OkJson j \<Rightarrow> \<lparr>outcome = Inr j, attempts = Suc i, slept = ms\<rparr>
      | TransportError e \<Rightarrow> fetchLoop upstream n (Suc i) (delay * 2) (ms + delay) (Some e)
      | HttpStatus e \<Rightarrow> fetchLoop upstream n (Suc i) (delay * 2) (ms + delay) (Some e)
      | ParseFailure e \<Rightarrow> fetchLoop upstream n (Suc i) (delay * 2) (ms + delay) (Some e))"

text \<open>\<open>fetchJSON\<close> of the lookup route with the in-memory cache: the last error is thrown.\<close>

definition fetchJSON :: "(nat \<Rightarrow> 'j attempt) \<Rightarrow> 'j fetched" where
  "fetchJSON upstream = fetchLoop upstream 4 0 200 0 None"

text \<open>\<open>fetchJSON\<close> of the routes with the key-value cache: the error is always \<open>fetch_failed\<close>.\<close>

definition fetchJSON_kv :: "(nat \<Rightarrow> 'j attempt) \<Rightarrow> 'j fetched" where
  "fetchJSON_kv upstream =
     (let r = fetchLoop upstream 4 0 200 0 None
      in case outcome r of
           Inl e \<Rightarrow> r\<lparr>outcome := Inl ''fetch_failed''\<rparr>
         | Inr j \<Rightarrow> r)"

section \<open>The reference index\<close>

record Row =
  ticker :: string
  cik :: string
  name :: string

text \<open>
  A row of an upstream registry document, its three fields already turned into strings
  (\<open>String(row.ticker || "")\<close>, \<open>String(row.cik)\<close>, \<open>String(row.title || "")\<close>).
\<close>

record RawRow =
  raw_ticker :: string
  raw_cik :: string
  raw_title :: string

definition mkRow :: "RawRow \<Rightarrow> Row" where
  "mkRow r = \<lparr>ticker = toUpperCase (raw_ticker r), cik = pad10 (raw_cik r), name = raw_title r\<rparr>"

text \<open>
  The body of the secondary document: its rows when it is an array
  (\<open>Array.isArray(j2)\<close>), anything else otherwise.
\<close>

datatype exchangeBody = IsArray "RawRow list" | NotArray

text \<open>
  \<open>byPlain\<close> is a JavaScript \<open>Map\<close>: its entries in insertion order.  \<open>push\<close> sets a key
  only when the map does not have it.
\<close>

type_synonym rowMap = "(string \<times> Row) list"

definition mapHas :: "rowMap \<Rightarrow> string \<Rightarrow> bool" where
  "mapHas m k = (k \<in> set (map fst m))"

definition mapSet :: "rowMap \<Rightarrow> string \<Rightarrow> Row \<Rightarrow> rowMap" where
  "mapSet m k v =
     (if mapHas m k then map (\<lambda>(k', v'). if k' = k then (k', v) else (k', v')) m
      else m @ [(k, v)])"

definition mapGet :: "rowMap \<Rightarrow> string \<Rightarrow> Row option" where
  "mapGet m k = map_of m k"

definition mapValues :: "rowMap \<Rightarrow> Row list" where
  "mapValues m = map snd m"

definition push :: "rowMap \<Rightarrow> Row \<Rightarrow> rowMap" where
  "push byPlain r =
     fold (\<lambda>n m. let key = plainKey n in if \<not> mapHas m key then mapSet m key r else m)
       (norms (ticker r)) byPlain"

text \<open>The merge of \<open>loadAll\<close> and \<open>loadIndex\<close>: \<open>arr2.forEach(push); arr1.forEach(push)\<close>.\<close>

definition mergeByPlain :: "Row list \<Rightarrow> Row list \<Rightarrow> rowMap" where
  "mergeByPlain arr1 arr2 = fold (\<lambda>r m. push m r) arr1 (fold (\<lambda>r m. push m r) arr2 [])"

text \<open>
  A build: the primary document, then the secondary one, then the merge.  \<open>fetch\<close> is the
  fetcher of the route.  A failure of the primary fetch is thrown before the secondary
  document is asked for; a failure of the secondary fetch is caught and leaves \<open>arr2\<close>
  empty.
\<close>

record built =
  result :: "string + Row list"
  fetches :: nat

definition buildIndex ::
  "((nat \<Rightarrow> RawRow list attempt) \<Rightarrow> RawRow list fetched) \<Rightarrow>
   ((nat \<Rightarrow> exchangeBody attempt) \<Rightarrow> exchangeBody fetched) \<Rightarrow>
   (nat \<Rightarrow> RawRow list attempt) \<Rightarrow> (nat \<Rightarrow> exchangeBody attempt) \<Rightarrow> built" where
  "buildIndex fetch1 fetch2 primary secondary =
     (let f1 = fetch1 primary in
      case outcome f1 of
        Inl e \<Rightarrow> \<lparr>result = Inl e, fetches = attempts f1\<rparr>
      | Inr j1 \<Rightarrow>
          (let arr1 = map mkRow j1;
               f2 = fetch2 secondary;
               arr2 = (case outcome f2 of
                         Inr (IsArray j2) \<Rightarrow> map mkRow j2
                       | Inr NotArray \<Rightarrow> []
                       | Inl e \<Rightarrow> [])
           in \<lparr>result = Inr (mapValues (mergeByPlain arr1 arr2)),
               fetches = attempts f1 + attempts f2\<rparr>))"

subsection \<open>The in-memory cache\<close>

record cacheState =
  CACHE :: "Row list option"
  LAST :: int

definition TTL_MS :: int where
  "TTL_MS = 60 * 60 * 1000"

definition initialCache :: cacheState where
  "initialCache = \<lparr>CACHE = None, LAST = 0\<rparr>"

text \<open>
  One call of \<open>loadAll\<close> at time \<open>now\<close> (\<open>Date.now()\<close>, in milliseconds): what it returns
  or throws, the module state it leaves, how many builds it started and how many HTTP
  fetches it made.  An array, also an empty one, is truthy, so \<open>CACHE &&\<close> asks only
  whether a build has been stored.
\<close>

record loaded =
  rows :: "string + Row list"
  state :: cacheState
  builds :: nat
  requests :: nat

definition loadAll ::
  "cacheState \<Rightarrow> int \<Rightarrow> (nat \<Rightarrow> RawRow list attempt) \<Rightarrow> (nat \<Rightarrow> exchangeBody attempt) \<Rightarrow> loaded" where
  "loadAll st now primary secondary =
     (case (if now - LAST st < TTL_MS then CACHE st else None) of
        Some cached \<Rightarrow> \<lparr>rows = Inr cached, state = st, builds = 0, requests = 0\<rparr>
      | None \<Rightarrow>
          (let b = buildIndex fetchJSON fetchJSON primary secondary in
           case result b of
             Inl e \<Rightarrow> \<lparr>rows = Inl e, state = st, builds = 1, requests = fetches b\<rparr>
           | Inr rs \<Rightarrow>
               \<lparr>rows = Inr rs, state = \<lparr>CACHE = Some rs, LAST = now\<rparr>, builds = 1,
                requests = fetches b\<rparr>))"

subsection \<open>The key-value cache\<close>

text \<open>
  The store is an external service.  \<open>kvGet\<close> does not ask it when the URL or the token is
  not configured; otherwise its answer is one of: the request throws, the response is not
  usable (status not ok, no string result, a result that does not parse), or a row list.
\<close>

record kvConfig =
  KV_URL :: string
  KV_TOKEN :: string

datatype kvReply = KvThrows string | KvUnusable | KvRows "Row list"

definition kvGet :: "kvConfig \<Rightarrow> kvReply \<Rightarrow> string + Row list option" where
  "kvGet cfg reply =
     (if KV_URL cfg = [] \<or> KV_TOKEN cfg = [] then Inr None
      else case reply of
             KvThrows e \<Rightarrow> Inl e
           | KvUnusable \<Rightarrow> Inr None
           | KvRows rs \<Rightarrow> Inr (Some rs))"

text \<open>\<open>kvSet\<close>: the row list sent to the store, if any; its failures are dropped.\<close>

definition kvSet :: "kvConfig \<Rightarrow> Row list \<Rightarrow> Row list option" where
  "kvSet cfg rs = (if KV_URL cfg = [] \<or> KV_TOKEN cfg = [] then None else Some rs)"

record loadedKv =
  kv_rows :: "string + Row list"
  kv_written :: "Row list option"
  kv_builds :: nat
  kv_requests :: nat

text \<open>
  One call of \<open>loadIndex\<close>.  It has no clock and no module state: a stored list is
  returned when \<open>kvGet\<close> yields one that is not empty (\<open>cached && cached.length\<close>), and
  every other call builds.
\<close>

definition loadIndex ::
  "kvConfig \<Rightarrow> kvReply \<Rightarrow> (nat \<Rightarrow> RawRow list attempt) \<Rightarrow> (nat \<Rightarrow> exchangeBody attempt) \<Rightarrow> loadedKv" where
  "loadIndex cfg reply primary secondary =
     (case kvGet cfg reply of
        Inl e \<Rightarrow> \<lparr>kv_rows = Inl e, kv_written = None, kv_builds = 0, kv_requests = 0\<rparr>
      | Inr cached \<Rightarrow>
          (if cached \<noteq> None \<and> the cached \<noteq> []
           then \<lparr>kv_rows = Inr (the cached), kv_written = None, kv_builds = 0, kv_requests = 0\<rparr>
           else
             (let b = buildIndex fetchJSON_kv fetchJSON_kv primary secondary in
              case result b of
                Inl e \<Rightarrow> \<lparr>kv_rows = Inl e, kv_written = None, kv_builds = 1,
                          kv_requests = fetches b\<rparr>
              | Inr rs \<Rightarrow> \<lparr>kv_rows = Inr rs, kv_written = kvSet cfg rs, kv_builds = 1,
                           kv_requests = fetches b\<rparr>)))"

section \<open>The resolver\<close>

text \<open>The test \<open>/^\d{1,10}$/\<close>.\<close>

definition isNumericQuery :: "string \<Rightarrow> bool" where
  "isNumericQuery q = (1 \<le> length q \<and> length q \<le> 10 \<and> list_all isDigit q)"

datatype lookupResponse = Hit Row | EmptyQuery | NotFound

text \<open>
  The handler \<open>GET\<close> of the lookup route on a loaded list: the numeric tier, the ticker
  tier, the two name tiers.  \<open>list.find\<close> is \<open>find\<close>.
\<close>

definition lookupGET :: "Row list \<Rightarrow> string \<Rightarrow> lookupResponse" where
  "lookupGET list symbol =
     (let q = trim symbol in
      if q = [] then EmptyQuery
      else
        case (if isNumericQuery q then find (\<lambda>r. cik r = pad10 q) list else None) of
          Some hit \<Rightarrow> Hit hit
        | None \<Rightarrow>
            (let variants = norms q;
                 qPlainSet = map plainKey variants;
                 Q = toUpperCase q
             in case find (\<lambda>x. let xs = map plainKey (norms (ticker x))
                                in list_ex (\<lambda>v. v \<in> set qPlainSet) xs) list of
                  Some hit \<Rightarrow> Hit hit
                | None \<Rightarrow>
                    (case find (\<lambda>x. startsWith (toUpperCase (name x)) Q) list of
                       Some hit \<Rightarrow> Hit hit
                     | None \<Rightarrow>
                         (case find (\<lambda>x. includesStr (toUpperCase (name x)) Q) list of
                            Some hit \<Rightarrow> Hit hit
                          | None \<Rightarrow> NotFound))))"

text \<open>\<open>resolve\<close>: the canonical id of the response, if it has one.\<close>

definition resolve :: "Row list \<Rightarrow> string \<Rightarrow> string option" where
  "resolve list symbol = (case lookupGET list symbol of Hit r \<Rightarrow> Some (cik r) | _ \<Rightarrow> None)"

section \<open>The autocomplete ranker\<close>

definition scoreRow :: "string \<Rightarrow> Row \<Rightarrow> nat" where
  "scoreRow q row =
     (let Q = trim (toUpperCase q);
          qPlain = plainKey Q;
          tickerVars = map plainKey (norms (ticker row))
      in if qPlain \<in> set tickerVars then 100
         else if list_ex (\<lambda>t. startsWith t qPlain) tickerVars then 90
         else if list_ex (\<lambda>t. includesStr t qPlain) tickerVars then 75
         else
           (let nameU = toUpperCase (name row)
            in if startsWith nameU Q then 65
               else if includesStr nameU Q then 50
               else 0))"

text \<open>
  The number \<open>Number(url.searchParams.get("limit") || 200)\<close>: an integer, or \<open>NaN\<close> when
  the parameter is not a number.  \<open>Math.max\<close> and \<open>Math.min\<close> return \<open>NaN\<close> on \<open>NaN\<close>, and
  \<open>slice(0, NaN)\<close> is empty.  Fractional limits are not modelled.
\<close>

datatype jsNumber = NaN | Num int

definition clampLimit :: "jsNumber \<Rightarrow> jsNumber" where
  "clampLimit limitParam =
     (case limitParam of NaN \<Rightarrow> NaN | Num n \<Rightarrow> Num (min 300 (max 10 n)))"

definition sliceTo :: "jsNumber \<Rightarrow> 'a list \<Rightarrow> 'a list" where
  "sliceTo limit xs = (case limit of NaN \<Rightarrow> [] | Num n \<Rightarrow> take (nat n) xs)"

text \<open>
  The handler \<open>GET\<close> of the suggest route on a loaded list.  \<open>localeCompare\<close> belongs to
  the runtime and is a parameter.
\<close>

definition suggestGET ::
  "(string \<Rightarrow> string \<Rightarrow> int) \<Rightarrow> Row list \<Rightarrow> string \<Rightarrow> jsNumber \<Rightarrow> Row list" where
  "suggestGET localeCompare list qParam limitParam =
     (let q = trim qParam;
          limit = clampLimit limitParam
      in if q = [] then []
         else
           (let Q = toUpperCase q in
            if length Q = 1
            then sliceTo limit
                   (sortBy (\<lambda>a b. localeCompare (ticker a) (ticker b) \<le> 0)
                      (filter (\<lambda>r. startsWith (ticker r) Q \<or> startsWith (toUpperCase (name r)) Q)
                         list))
            else map fst
                   (sliceTo limit
                      (sortBy (\<lambda>a b. int (snd b) - int (snd a) \<le> 0)
                         (filter (\<lambda>x. snd x > 0) (map (\<lambda>row. (row, scoreRow q row)) list))))))"

section \<open>The filing enrichment pipeline\<close>

definition isHtmlLike :: "string \<Rightarrow> bool" where
  "isHtmlLike url =
     (let u = toLowerCase url
      in endsWith u ''.htm'' \<or> endsWith u ''.html'' \<or> endsWith u ''.txt'')"

subsection \<open>Markup stripping\<close>

text \<open>
  \<open>/<[^>]+>/\<close> at the start of a string: \<open><\<close>, at least one character other than \<open>>\<close>,
  then \<open>>\<close>.  The result is the length of the match.
\<close>

definition tagAt :: "string \<Rightarrow> nat option" where
  "tagAt s =
     (case s of
        [] \<Rightarrow> None
      | c # cs \<Rightarrow>
          (let body = takeWhile (\<lambda>x. x \<noteq> CHR ''>'') cs;
               rest = dropWhile (\<lambda>x. x \<noteq> CHR ''>'') cs
           in if c = CHR ''<'' \<and> body \<noteq> [] \<and> rest \<noteq> [] then Some (length body + 2) else None))"

text \<open>\<open>raw.replace(/<[^>]+>/g, " ")\<close>, with the counter of \<open>execAll\<close>.\<close>

fun replaceTags :: "nat \<Rightarrow> string \<Rightarrow> string" where
  "replaceTags k [] = []"
| "replaceTags (Suc k) (c # cs) = replaceTags k cs"
| "replaceTags 0 (c # cs) =
     (case tagAt (c # cs) of
        Some n \<Rightarrow> CHR '' '' # replaceTags (n - 1) cs
      | None \<Rightarrow> c # replaceTags 0 cs)"

definition stripTags :: "string \<Rightarrow> string" where
  "stripTags raw = replaceTags 0 raw"

subsection \<open>The item-code detector\<close>

text \<open>
  \<open>/Item\s+\d{1,2}\.\d{2}/i\<close> at the start of a string.  The white space is taken
  greedily, and a digit cannot stand for it; one or two digits must be followed by the
  dot, so a run of three digits or more does not match.  The result is the length of the
  match and the matched text.
\<close>

definition itemAt :: "string \<Rightarrow> (nat \<times> string) option" where
  "itemAt s =
     (let word = take 4 s;
          ws = takeWhile isSpace (drop 4 s);
          r1 = dropWhile isSpace (drop 4 s);
          major = takeWhile isDigit r1;
          r2 = dropWhile isDigit r1;
          n = 4 + length ws + length major + 3
      in if toUpperCase word = ''ITEM'' \<and> ws \<noteq> [] \<and> (length major = 1 \<or> length major = 2)
            \<and> startsWith r2 ''.'' \<and> 3 \<le> length r2 \<and> isDigit (r2 ! 1) \<and> isDigit (r2 ! 2)
         then Some (n, take n s)
         else None)"

record detected =
  items :: "string list"
  badges :: "string list"

definition detectItems :: "string \<Rightarrow> detected" where
  "detectItems text =
     (let found = execAll itemAt 0 text;
          items = uniq found;
          lower = map toLowerCase items;
          badges1 = (if ''item 1.01'' \<in> set lower then [''Material Agreement (Item 1.01)''] else []);
          badges2 = (if ''item 5.02'' \<in> set lower then [''Executive Change (Item 5.02)''] else [])
      in \<lparr>items = items, badges = badges1 @ badges2\<rparr>)"

subsection \<open>The amount extractor\<close>

text \<open>The groups \<open>(?:,[0-9]{3})*\<close>: how many characters they take.\<close>

fun commaGroups :: "string \<Rightarrow> nat" where
  "commaGroups (c # d1 # d2 # d3 # rest) =
     (if c = CHR '','' \<and> isDigit d1 \<and> isDigit d2 \<and> isDigit d3 then 4 + commaGroups rest else 0)"
| "commaGroups s = 0"

text \<open>The fraction \<open>(?:\.[0-9]+)?\<close>: how many characters it takes.\<close>

definition fractionLen :: "string \<Rightarrow> nat" where
  "fractionLen s =
     (case s of
        [] \<Rightarrow> 0
      | c # cs \<Rightarrow>
          (if c = CHR ''.'' \<and> takeWhile isDigit cs \<noteq> [] then 1 + length (takeWhile isDigit cs)
           else 0))"

text \<open>
  The scale word \<open>(million|billion|m|bn)?\<close> under the flag \<open>i\<close>: the alternatives are
  tried in this order, and the first that fits is taken.
\<close>

definition unitAt :: "string \<Rightarrow> string" where
  "unitAt s =
     (let u = toUpperCase s
      in if startsWith u ''MILLION'' then take 7 s
         else if startsWith u ''BILLION'' then take 7 s
         else if startsWith u ''M'' then take 1 s
         else if startsWith u ''BN'' then take 2 s
         else [])"

text \<open>
  \<open>/\$?\s?([0-9]{1,3}(?:,[0-9]{3})*(?:\.[0-9]+)?)\s*(million|billion|m|bn)?/i\<close> at the
  start of a string.  Behind the optional dollar sign and the optional white-space
  character a digit must stand; everything behind the first digit is optional and taken
  greedily.  The result is the length of the match and the two groups.
\<close>

definition amountAt :: "string \<Rightarrow> (nat \<times> string \<times> string) option" where
  "amountAt s =
     (let s1 = (case s of c # cs \<Rightarrow> if c = CHR ''$'' then cs else s | [] \<Rightarrow> s);
          s2 = (case s1 of c # cs \<Rightarrow> if isSpace c then cs else s1 | [] \<Rightarrow> s1);
          lead = length s - length s2;
          head = min 3 (length (takeWhile isDigit s2));
          groups = commaGroups (drop head s2);
          frac = fractionLen (drop (head + groups) s2);
          numLen = head + groups + frac;
          r = drop numLen s2;
          ws = length (takeWhile isSpace r);
          unit = unitAt (dropWhile isSpace r)
      in if head = 0 then None
         else Some (lead + numLen + ws + length unit, take numLen s2, unit))"

text \<open>
  \<open>parseFloat\<close> on digits with an optional fraction.  Amounts are exact rationals: the
  rounding of a double and its overflow are not modelled, so \<open>Number.isFinite\<close> holds of
  every amount.
\<close>

definition digitsValue :: "string \<Rightarrow> nat" where
  "digitsValue ds = fold (\<lambda>c n. 10 * n + (of_char c - 48)) ds 0"

definition parseFloat :: "string \<Rightarrow> rat" where
  "parseFloat s =
     (let ip = takeWhile isDigit s;
          r = dropWhile isDigit s;
          fp = takeWhile isDigit (drop 1 r)
      in if startsWith r ''.'' then of_nat (digitsValue ip) + of_nat (digitsValue fp) / 10 ^ length fp
         else of_nat (digitsValue ip))"

text \<open>The body of the \<open>while\<close> loop of \<open>extractLargestAmount\<close>, on one match.\<close>

definition amountStep :: "string \<times> string \<Rightarrow> rat option \<Rightarrow> rat option" where
  "amountStep m mx =
     (let num = parseFloat (filter (\<lambda>c. c \<noteq> CHR '','') (fst m));
          unit = toLowerCase (snd m);
          num1 = (if unit = ''billion'' \<or> unit = ''bn'' then num * 1000000000 else num);
          num2 = (if unit = ''million'' \<or> unit = ''m'' then num1 * 1000000 else num1)
      in if mx = None \<or> num2 > the mx then Some num2 else mx)"

definition extractLargestAmount :: "string \<Rightarrow> rat option" where
  "extractLargestAmount text = fold amountStep (execAll amountAt 0 text) None"

subsection \<open>The filings handler\<close>

text \<open>
  One entry of \<open>data.filings.recent\<close>, and the outcome of the fetch of its primary
  document: the fetch or the reading of its text throws, the status is not ok, or the
  text arrives.
\<close>

record Recent =
  r_form :: string
  r_filingDate :: string
  r_accessionNumber :: string
  r_primaryDocument :: string

datatype docFetch = DocThrows | DocNotOk | DocText string

record Filing =
  f_cik :: string
  company :: string
  f_form :: string
  f_filed_at :: string
  title :: string
  source_url :: string
  primary_doc_url :: "string option"
  f_items :: "string list"
  f_badges :: "string list"
  amount_usd :: "rat option"

text \<open>
  What the inner \<open>try\<close> block leaves in \<open>items\<close>, \<open>badges\<close> and \<open>amount_usd\<close>.  The
  \<open>catch\<close> is empty, and a response that is not ok is skipped.
\<close>

definition enrichDoc :: "string \<Rightarrow> docFetch \<Rightarrow> string list \<times> string list \<times> rat option" where
  "enrichDoc form t =
     (case t of
        DocThrows \<Rightarrow> ([], [], None)
      | DocNotOk \<Rightarrow> ([], [], None)
      | DocText raw \<Rightarrow>
          (let text = stripTags raw;
               found = (if startsWith (toUpperCase form) ''8-K'' then detectItems text
                        else \<lparr>items = [], badges = []\<rparr>);
               amount = (if toUpperCase form \<in> set [''S-1'', ''424B1'', ''424B2'', ''424B3'', ''424B4'']
                         then extractLargestAmount text else None)
           in (items found, badges found, amount)))"

text \<open>
  One iteration of the loop of \<open>GET\<close>.  \<open>cikNum\<close> is the text of
  \<open>parseInt(params.cik, 10)\<close> and \<open>nm\<close> the company name taken from the submissions
  document (the constant \<open>name\<close> of the handler).  An empty file name gives no primary URL.
  The bullet between the parts of the title is written as an asterisk.
\<close>

definition filingOf :: "string \<Rightarrow> string \<Rightarrow> string \<Rightarrow> Recent \<Rightarrow> docFetch \<Rightarrow> Filing" where
  "filingOf cik10 cikNum nm r t =
     (let form = r_form r;
          filed_at = r_filingDate r;
          acc = filter (\<lambda>c. c \<noteq> CHR ''-'') (r_accessionNumber r);
          primary = r_primaryDocument r;
          base = ''https://www.sec.gov/Archives/edgar/data/'' @ cikNum @ ''/'' @ acc;
          primaryUrl = (if primary \<noteq> [] then Some (base @ ''/'' @ primary) else None);
          e = (if primaryUrl \<noteq> None \<and> isHtmlLike (the primaryUrl) then enrichDoc form t
               else ([], [], None))
      in \<lparr>f_cik = cik10, company = nm, f_form = form, f_filed_at = filed_at,
          title = nm @ '' * '' @ form @ '' * '' @ filed_at,
          source_url = base, primary_doc_url = primaryUrl,
          f_items = fst e, f_badges = fst (snd e), amount_usd = snd (snd e)\<rparr>)"

text \<open>
  The loop of \<open>GET\<close> over the first twelve entries; \<open>docs i\<close> is the outcome of the
  document fetch of entry \<open>i\<close>.  The four parallel arrays of \<open>recent\<close> are read as one list
  of entries, and the handler is modelled on the path on which the submissions document
  has arrived (a failed fetch of that document is answered with status 502 before the
  loop).
\<close>

fun filingsLoop ::
  "string \<Rightarrow> string \<Rightarrow> string \<Rightarrow> (nat \<Rightarrow> docFetch) \<Rightarrow> nat \<Rightarrow> Recent list \<Rightarrow> Filing list" where
  "filingsLoop cik10 cikNum nm docs i [] = []"
| "filingsLoop cik10 cikNum nm docs i (r # rs) =
     filingOf cik10 cikNum nm r (docs i) # filingsLoop cik10 cikNum nm docs (Suc i) rs"

definition filingsGET ::
  "string \<Rightarrow> string \<Rightarrow> string \<Rightarrow> Recent list \<Rightarrow> (nat \<Rightarrow> docFetch) \<Rightarrow> Filing list" where
  "filingsGET cikParam cikNum nm recent docs =
     (let cik10 = zeroPadCIK cikParam;
          n = min 12 (length recent)
      in filingsLoop cik10 cikNum nm docs 0 (take n recent))"

section \<open>Notions used in the statements\<close>

text \<open>An attempt that delivers a body.\<close>

definition isOkJson :: "'j attempt \<Rightarrow> bool" where
  "isOkJson a = (case a of OkJson j \<Rightarrow> True | _ \<Rightarrow> False)"

text \<open>
  Two upstream services: one whose first \<open>n\<close> responses have an ok status and a body that
  does not parse, and one that always delivers the same body.
\<close>

definition parseFailuresThen :: "nat \<Rightarrow> string \<Rightarrow> 'j \<Rightarrow> nat \<Rightarrow> 'j attempt" where
  "parseFailuresThen n e j i = (if i < n then ParseFailure e else OkJson j)"

definition alwaysOk :: "'j \<Rightarrow> nat \<Rightarrow> 'j attempt" where
  "alwaysOk j i = OkJson j"

text \<open>A registry row as the primary document has it, and the row built from it.\<close>

definition appleRaw :: RawRow where
  "appleRaw = \<lparr>raw_ticker = ''aapl'', raw_cik = ''320193'', raw_title = ''Apple Inc.''\<rparr>"

definition appleRow :: Row where
  "appleRow = \<lparr>ticker = ''AAPL'', cik = ''0000320193'', name = ''Apple Inc.''\<rparr>"

text \<open>
  The plain key of a row: its ticker upper-cased and trimmed as \<open>norms\<close> does, with dots and
  dashes removed.
\<close>

definition rowKey :: "Row \<Rightarrow> string" where
  "rowKey r = plainKey (trim (toUpperCase (ticker r)))"

text \<open>A map whose keys are distinct and whose every entry stands under the key of its row.\<close>

definition keyed :: "rowMap \<Rightarrow> bool" where
  "keyed m = (distinct (map fst m) \<and> list_all (\<lambda>e. fst e = rowKey (snd e)) m)"

text \<open>Two entries of a submissions document.\<close>

definition report8K :: Recent where
  "report8K = \<lparr>r_form = ''8-K'', r_filingDate = ''2024-05-01'',
     r_accessionNumber = ''0000320193-24-000001'', r_primaryDocument = ''a8k.htm''\<rparr>"

definition prospectus :: Recent where
  "prospectus = \<lparr>r_form = ''424B4'', r_filingDate = ''2024-04-01'',
     r_accessionNumber = ''0000320193-24-000002'', r_primaryDocument = ''offer.txt''\<rparr>"

text \<open>The fetch of entry 0 throws, the one of entry 1 delivers a text.\<close>

definition firstFetchFails :: "nat \<Rightarrow> docFetch" where
  "firstFetchFails i = (if i = 0 then DocThrows else DocText ''<p>We offer $2 million</p>'')"








text \<open>
  A comparison that can stand for \<open>localeCompare\<close> in an example: strings compared by
  the codes of their characters.
\<close>

fun codeUnitCompare :: "string \<Rightarrow> string \<Rightarrow> int" where
  "codeUnitCompare [] [] = 0"
| "codeUnitCompare [] (y # ys) = - 1"
| "codeUnitCompare (x # xs) [] = 1"
| "codeUnitCompare (x # xs) (y # ys) =
     (if (of_char x :: nat) < of_char y then - 1
      else if (of_char y :: nat) < of_char x then 1
      else codeUnitCompare xs ys)"

text \<open>A relation in which any two elements compare, and which is transitive.\<close>

definition totalOrder :: "('a \<Rightarrow> 'a \<Rightarrow> bool) \<Rightarrow> bool" where
  "totalOrder le = ((\<forall>a b. le a b \<or> le b a) \<and> (\<forall>a b c. le a b \<longrightarrow> le b c \<longrightarrow> le a c))"

text \<open>Rows for the examples of the ranker.\<close>

definition aaplHoldings :: Row where
  "aaplHoldings = \<lparr>ticker = ''ZQ'', cik = ''0000000042'', name = ''Aapl Holdings Ltd''\<rparr>"




section \<open>Canonical ids: the width of the padding\<close>

lemma padStart0_length: "length (padStart0 n s) = max n (length s)"
  by (simp add: padStart0_def)

text \<open>
  Claim C10.  \<open>pad10\<close> keeps the digits of its input and pads them with zeros on the left
  to a width of at least 10: the result consists of digits only and its length is the
  larger of 10 and the number of digits of the input, so it is 10 exactly when the input
  has at most 10 digits, and longer otherwise.  \<open>zeroPadCIK\<close> pads the path parameter as
  it is: nothing is stripped, and the result consists of digits only when the parameter
  does.
\<close>

theorem pad10_minimum_width:
  "pad10 s = replicate (10 - length (filter isDigit s)) (CHR ''0'') @ filter isDigit s
   \<and> list_all isDigit (pad10 s)
   \<and> length (pad10 s) = max 10 (length (filter isDigit s))
   \<and> (length (pad10 s) = 10) = (length (filter isDigit s) \<le> 10)
   \<and> zeroPadCIK s = replicate (10 - length s) (CHR ''0'') @ s
   \<and> length (zeroPadCIK s) = max 10 (length s)
   \<and> list_all isDigit (zeroPadCIK s) = list_all isDigit s"
proof -
  have d0: "isDigit (CHR ''0'')" by (simp add: isDigit_def)
  have a: "list_all isDigit (pad10 s)"
    by (auto simp add: pad10_def padStart0_def list_all_iff d0 Let_def)
  have b: "list_all isDigit (zeroPadCIK s) = list_all isDigit s"
    by (auto simp add: zeroPadCIK_def padStart0_def list_all_iff d0)
  show ?thesis using a b
    by (auto simp add: pad10_def zeroPadCIK_def padStart0_def Let_def)
qed

text \<open>Eleven digits give an id of eleven characters; letters survive \<open>zeroPadCIK\<close>.\<close>

theorem pad10_minimum_width_example:
  "pad10 ''12345678901'' = ''12345678901'' \<and> length (pad10 ''12345678901'') = 11
   \<and> pad10 ''CIK 320193'' = ''0000320193''
   \<and> zeroPadCIK ''12ab'' = ''00000012ab'' \<and> \<not> list_all isDigit (zeroPadCIK ''12ab'')"
  using pad10_minimum_width [of "''12345678901''"] pad10_minimum_width [of "''12ab''"]
    pad10_minimum_width [of "''CIK 320193''"]
  by (simp add: isDigit_def eval_nat_numeral)

section \<open>The resilient fetcher: what is retried\<close>

lemma backoff_sum: "ms + d + d * 2 * (2 ^ k - 1) = ms + d * (2 ^ Suc k - 1)" for ms d k :: nat
proof -
  obtain m where m: "(2::nat) ^ k = Suc m" by (cases "(2::nat) ^ k") auto
  show ?thesis by (simp add: m algebra_simps)
qed

lemma fetchLoop_failed_step:
  assumes "\<not> isOkJson (upstream i0)"
  shows "fetchLoop upstream (Suc n) i0 d ms err =
     fetchLoop upstream n (Suc i0) (d * 2) (ms + d)
       (case upstream i0 of
          TransportError e \<Rightarrow> Some e
        | HttpStatus e \<Rightarrow> Some e
        | ParseFailure e \<Rightarrow> Some e
        | OkJson j \<Rightarrow> None)"
  using assms by (cases "upstream i0") (simp_all add: isOkJson_def)


lemma fetchLoop_all_fail:
  "\<forall>i<n. \<not> isOkJson (upstream (i0 + i)) \<Longrightarrow>
   attempts (fetchLoop upstream n i0 d ms err) = i0 + n
   \<and> slept (fetchLoop upstream n i0 d ms err) = ms + d * (2 ^ n - 1)
   \<and> (\<exists>e. outcome (fetchLoop upstream n i0 d ms err) = Inl e)"
proof (induction n arbitrary: i0 d ms err)
  case 0
  then show ?case by simp
next
  case (Suc n)
  have nok: "\<not> isOkJson (upstream i0)" using Suc.prems by force
  have p2: "\<forall>i<n. \<not> isOkJson (upstream (Suc i0 + i))"
    using Suc.prems by force
  show ?case
    unfolding fetchLoop_failed_step [of upstream i0, OF nok]
    using Suc.IH [OF p2] backoff_sum [of ms d n] by simp
qed



text \<open>
  When all four attempts fail, in whatever way, the error is thrown after four fetches and
  200 + 400 + 800 + 1600 milliseconds of sleep.
\<close>

lemma fetchJSON_exhausted:
  assumes "\<forall>i<4. \<not> isOkJson (upstream i)"
  shows "attempts (fetchJSON upstream) = 4 \<and> slept (fetchJSON upstream) = 3000
    \<and> (\<exists>e. outcome (fetchJSON upstream) = Inl e)"
  using fetchLoop_all_fail [of 4 upstream 0 200 0 None] assms
  by (simp add: fetchJSON_def)




section \<open>The index cache: freshness\<close>

lemma loadAll_hit:
  assumes "CACHE st = Some rs" and "now - LAST st < TTL_MS"
  shows "loadAll st now p s = \<lparr>rows = Inr rs, state = st, builds = 0, requests = 0\<rparr>"
  using assms by (simp add: loadAll_def)

lemma loadAll_miss:
  assumes "CACHE st = None \<or> \<not> now - LAST st < TTL_MS"
  shows "builds (loadAll st now p s) = 1
    \<and> rows (loadAll st now p s) = result (buildIndex fetchJSON fetchJSON p s)
    \<and> state (loadAll st now p s) =
        (case result (buildIndex fetchJSON fetchJSON p s) of
           Inr rs' \<Rightarrow> \<lparr>CACHE = Some rs', LAST = now\<rparr>
         | Inl e \<Rightarrow> st)"
proof -
  have c: "(if now - LAST st < TTL_MS then CACHE st else None) = None"
    using assms by auto
  show ?thesis
    by (simp add: loadAll_def c Let_def split: sum.split)
qed

text \<open>A call that built and returned rows has stored them with the time of the call.\<close>

lemma loadAll_built_state:
  assumes "rows (loadAll st0 t0 p0 s0) = Inr rs" and "builds (loadAll st0 t0 p0 s0) = 1"
  shows "state (loadAll st0 t0 p0 s0) = \<lparr>CACHE = Some rs, LAST = t0\<rparr>"
proof -
  have m: "CACHE st0 = None \<or> \<not> t0 - LAST st0 < TTL_MS"
  proof (rule ccontr)
    assume "\<not> ?thesis"
    then obtain c where "CACHE st0 = Some c" and "t0 - LAST st0 < TTL_MS" by auto
    from loadAll_hit [OF this] have "builds (loadAll st0 t0 p0 s0) = 0" by simp
    with assms(2) show False by simp
  qed
  from loadAll_miss [OF m, of p0 s0] assms(1) show ?thesis
    by (cases "result (buildIndex fetchJSON fetchJSON p0 s0)") auto
qed

lemma loadIndex_builds:
  "kv_builds (loadIndex cfg reply p s) =
     (case kvGet cfg reply of
        Inl e \<Rightarrow> 0
      | Inr None \<Rightarrow> 1
      | Inr (Some []) \<Rightarrow> 1
      | Inr (Some (r # rs)) \<Rightarrow> 0)"
  by (simp add: loadIndex_def Let_def split: sum.split option.split list.split)

text \<open>Without a configured store, \<open>loadIndex\<close> builds on every call and stores nothing.\<close>

lemma loadIndex_unconfigured:
  assumes "KV_URL cfg = [] \<or> KV_TOKEN cfg = []"
  shows "kv_builds (loadIndex cfg reply p s) = 1 \<and> kv_written (loadIndex cfg reply p s) = None"
  using assms
  by (auto simp add: loadIndex_def kvGet_def kvSet_def Let_def split: sum.split)

text \<open>
  Claim C3 says of every variant of the index cache that a call made within the hour after
  a build returns the list of that build without building.  \<open>loadIndex\<close> has no clock and
  keeps nothing in the process: with the key-value store not configured, nothing is
  written and every call (so also the one that follows a build at once) builds again,
  with two upstream requests.
\<close>

theorem loadIndex_rebuilds_counterexample:
  "loadIndex \<lparr>KV_URL = [], KV_TOKEN = []\<rparr> KvUnusable (alwaysOk [appleRaw]) (alwaysOk (IsArray []))
     = \<lparr>kv_rows = Inr [appleRow], kv_written = None, kv_builds = 1, kv_requests = 2\<rparr>"
  by code_simp

text \<open>
  Claim C3, amended.  For \<open>loadAll\<close>, the in-memory cache: after a call at time \<open>t0\<close> that
  built and returned \<open>rs\<close>, the state holds \<open>rs\<close> with the time \<open>t0\<close>; a call at time \<open>t\<close>
  with \<open>t - t0\<close> below one hour returns \<open>rs\<close>, starts no build, makes no upstream request
  and leaves the state as it is, whatever the upstream would answer; a call at any other
  time starts exactly one build, returns what that build returns and, if the build
  succeeds, stores it with the time \<open>t\<close> (a failed build is thrown and leaves the state).
  For \<open>loadIndex\<close>, the variant with the key-value store: whether it builds depends on the
  answer of the store alone, not on the time since the last build; it starts no build
  when \<open>kvGet\<close> yields a list that is not empty (or throws), and exactly one otherwise.
\<close>

theorem loadAll_cache_freshness:
  assumes "rows (loadAll st0 t0 p0 s0) = Inr rs" and "builds (loadAll st0 t0 p0 s0) = 1"
  shows "state (loadAll st0 t0 p0 s0) = \<lparr>CACHE = Some rs, LAST = t0\<rparr>
    \<and> (if t - t0 < TTL_MS
       then loadAll (state (loadAll st0 t0 p0 s0)) t p s =
              \<lparr>rows = Inr rs, state = state (loadAll st0 t0 p0 s0), builds = 0, requests = 0\<rparr>
       else builds (loadAll (state (loadAll st0 t0 p0 s0)) t p s) = 1
          \<and> rows (loadAll (state (loadAll st0 t0 p0 s0)) t p s) =
              result (buildIndex fetchJSON fetchJSON p s)
          \<and> state (loadAll (state (loadAll st0 t0 p0 s0)) t p s) =
              (case result (buildIndex fetchJSON fetchJSON p s) of
                 Inr rs' \<Rightarrow> \<lparr>CACHE = Some rs', LAST = t\<rparr>
               | Inl e \<Rightarrow> state (loadAll st0 t0 p0 s0)))
    \<and> kv_builds (loadIndex cfg reply p s) =
        (case kvGet cfg reply of
           Inl e \<Rightarrow> 0
         | Inr None \<Rightarrow> 1
         | Inr (Some []) \<Rightarrow> 1
         | Inr (Some (r # rs')) \<Rightarrow> 0)"
proof -
  let ?st1 = "state (loadAll st0 t0 p0 s0)"
  have st1: "?st1 = \<lparr>CACHE = Some rs, LAST = t0\<rparr>"
    by (rule loadAll_built_state [OF assms])
  have hit: "t - t0 < TTL_MS \<Longrightarrow>
      loadAll ?st1 t p s = \<lparr>rows = Inr rs, state = ?st1, builds = 0, requests = 0\<rparr>"
    by (rule loadAll_hit) (simp_all add: st1)
  have miss: "\<not> t - t0 < TTL_MS \<Longrightarrow>
      builds (loadAll ?st1 t p s) = 1
      \<and> rows (loadAll ?st1 t p s) = result (buildIndex fetchJSON fetchJSON p s)
      \<and> state (loadAll ?st1 t p s) =
          (case result (buildIndex fetchJSON fetchJSON p s) of
             Inr rs' \<Rightarrow> \<lparr>CACHE = Some rs', LAST = t\<rparr>
           | Inl e \<Rightarrow> ?st1)"
    by (rule loadAll_miss) (simp add: st1)
  show ?thesis
  proof (cases "t - t0 < TTL_MS")
    case True
    then show ?thesis using st1 hit [OF True] loadIndex_builds [of cfg reply p s] by simp
  next
    case False
    then show ?thesis using st1 miss [OF False] loadIndex_builds [of cfg reply p s] by simp
  qed
qed

text \<open>
  A first call at time 1000 builds.  One millisecond before the hour is over the list is
  served from memory although the upstream is down; at the full hour the call builds.
\<close>

theorem loadAll_cache_freshness_witness:
  "loadAll initialCache 1000 (alwaysOk [appleRaw]) (alwaysOk (IsArray []))
     = \<lparr>rows = Inr [appleRow], state = \<lparr>CACHE = Some [appleRow], LAST = 1000\<rparr>,
        builds = 1, requests = 2\<rparr>
   \<and> loadAll \<lparr>CACHE = Some [appleRow], LAST = 1000\<rparr> 3600999
        (parseFailuresThen 4 ''down'' []) (alwaysOk NotArray)
     = \<lparr>rows = Inr [appleRow], state = \<lparr>CACHE = Some [appleRow], LAST = 1000\<rparr>,
        builds = 0, requests = 0\<rparr>
   \<and> builds (loadAll \<lparr>CACHE = Some [appleRow], LAST = 1000\<rparr> 3601000
        (alwaysOk [appleRaw]) (alwaysOk (IsArray []))) = 1
   \<and> kv_builds (loadIndex \<lparr>KV_URL = ''u'', KV_TOKEN = ''t''\<rparr> (KvRows [appleRow])
        (alwaysOk [appleRaw]) (alwaysOk (IsArray []))) = 0"
proof -
  let ?first = "loadAll initialCache 1000 (alwaysOk [appleRaw]) (alwaysOk (IsArray []))"
  have first: "?first = \<lparr>rows = Inr [appleRow],
      state = \<lparr>CACHE = Some [appleRow], LAST = 1000\<rparr>, builds = 1, requests = 2\<rparr>"
    by code_simp
  have h1: "rows ?first = Inr [appleRow]" and h2: "builds ?first = 1"
    by (simp_all add: first)
  have kv: "kvGet \<lparr>KV_URL = ''u'', KV_TOKEN = ''t''\<rparr> (KvRows [appleRow]) = Inr (Some [appleRow])"
    by (simp add: kvGet_def)
  show ?thesis
    using loadAll_cache_freshness [OF h1 h2, of 3600999 "parseFailuresThen 4 ''down'' []"
        "alwaysOk NotArray" "\<lparr>KV_URL = ''u'', KV_TOKEN = ''t''\<rparr>" "KvRows [appleRow]"]
      loadAll_cache_freshness [OF h1 h2, of 3601000 "alwaysOk [appleRaw]"
        "alwaysOk (IsArray [])" "\<lparr>KV_URL = ''u'', KV_TOKEN = ''t''\<rparr>" "KvRows [appleRow]"]
    by (simp add: first TTL_MS_def kv)
qed

section \<open>The reference index: merge precedence\<close>

lemma uniqFrom_set: "set (uniqFrom seen xs) = set xs - set seen"
  by (induction xs arbitrary: seen) auto

lemma uniqFrom_distinct: "distinct (uniqFrom seen xs)"
  by (induction xs arbitrary: seen) (auto simp add: uniqFrom_set)

lemma uniq_set: "set (uniq xs) = set xs"
  by (simp add: uniq_def uniqFrom_set)

lemma uniq_distinct: "distinct (uniq xs)"
  by (simp add: uniq_def uniqFrom_distinct)

lemma plainKey_idem: "plainKey (plainKey s) = plainKey s"
  by (simp add: plainKey_def)

lemma plainKey_noDots: "plainKey (filter (\<lambda>c. c \<noteq> CHR ''.'') s) = plainKey s"
  by (induction s) (auto simp add: plainKey_def)

lemma plainKey_dash: "plainKey (map (\<lambda>c. if c = CHR ''.'' then CHR ''-'' else c) s) = plainKey s"
  by (induction s) (auto simp add: plainKey_def)

lemma norms_keys: "set (map plainKey (norms t)) = {plainKey (trim (toUpperCase t))}"
  by (auto simp add: norms_def Let_def uniq_set plainKey_idem plainKey_noDots plainKey_dash)

lemma norms_nonempty: "norms t \<noteq> []"
  by (simp add: norms_def Let_def uniq_def)

lemma mapHas_get: "mapHas m k = (mapGet m k \<noteq> None)"
  by (simp add: mapHas_def mapGet_def map_of_eq_None_iff)

lemma push_fold_has:
  assumes "mapHas m k" and "\<forall>n\<in>set ns. plainKey n = k"
  shows "fold (\<lambda>n m. let key = plainKey n in if \<not> mapHas m key then mapSet m key r else m) ns m = m"
  using assms by (induction ns) (simp_all add: Let_def)

lemma push_eq: "push m r = (if mapHas m (rowKey r) then m else m @ [(rowKey r, r)])"
proof -
  let ?k = "rowKey r"
  have keys: "\<forall>n\<in>set (norms (ticker r)). plainKey n = ?k"
    using norms_keys [of "ticker r"] by (auto simp add: rowKey_def)
  obtain n ns where ns: "norms (ticker r) = n # ns"
    using norms_nonempty [of "ticker r"] by (cases "norms (ticker r)") auto
  have kn: "plainKey n = ?k" and kns: "\<forall>x\<in>set ns. plainKey x = ?k"
    using keys ns by auto
  show ?thesis
  proof (cases "mapHas m ?k")
    case True
    then show ?thesis using push_fold_has [OF True keys] by (simp add: push_def)
  next
    case False
    have h: "mapHas (m @ [(?k, r)]) ?k" by (simp add: mapHas_def)
    show ?thesis
      using False push_fold_has [OF h kns, of r]
      by (simp add: push_def ns kn Let_def mapSet_def)
  qed
qed

lemma mapGet_snoc:
  "mapGet (m @ [(k, r)]) k' =
     (case mapGet m k' of Some v \<Rightarrow> Some v | None \<Rightarrow> if k = k' then Some r else None)"
  by (auto simp add: mapGet_def map_add_def split: option.split)

lemma push_get:
  "mapGet (push m r) k =
     (case mapGet m k of Some v \<Rightarrow> Some v | None \<Rightarrow> if rowKey r = k then Some r else None)"
  by (auto simp add: push_eq mapHas_get mapGet_snoc split: option.split)

lemma fold_push_get:
  "mapGet (fold (\<lambda>r m. push m r) rs m) k =
     (case mapGet m k of Some v \<Rightarrow> Some v | None \<Rightarrow> find (\<lambda>r. rowKey r = k) rs)"
proof (induction rs arbitrary: m)
  case Nil
  then show ?case by (simp split: option.split)
next
  case (Cons r rs)
  have "mapGet (fold (\<lambda>r m. push m r) (r # rs) m) k =
      mapGet (fold (\<lambda>r m. push m r) rs (push m r)) k"
    by simp
  also have "\<dots> = (case mapGet (push m r) k of
      Some v \<Rightarrow> Some v | None \<Rightarrow> find (\<lambda>r. rowKey r = k) rs)"
    by (rule Cons.IH)
  also have "\<dots> = (case mapGet m k of
      Some v \<Rightarrow> Some v | None \<Rightarrow> find (\<lambda>r. rowKey r = k) (r # rs))"
    by (simp add: push_get split: option.split)
  finally show ?case .
qed

lemma merge_get:
  "mapGet (mergeByPlain arr1 arr2) k =
     (case find (\<lambda>r. rowKey r = k) arr2 of
        Some s \<Rightarrow> Some s
      | None \<Rightarrow> find (\<lambda>r. rowKey r = k) arr1)"
proof -
  have e: "mapGet [] k = None" by (simp add: mapGet_def)
  show ?thesis
    unfolding mergeByPlain_def fold_push_get e by (simp split: option.split)
qed

lemma push_keyed:
  assumes "keyed m"
  shows "keyed (push m r)"
proof (cases "mapHas m (rowKey r)")
  case True
  then show ?thesis using assms by (simp add: push_eq)
next
  case False
  then have "rowKey r \<notin> set (map fst m)" by (simp add: mapHas_def)
  then show ?thesis using assms False by (simp add: push_eq keyed_def)
qed

lemma fold_push_keyed: "keyed m \<Longrightarrow> keyed (fold (\<lambda>r m. push m r) rs m)"
proof (induction rs arbitrary: m)
  case Nil
  then show ?case by simp
next
  case (Cons r rs)
  have "keyed (push m r)" by (rule push_keyed [OF Cons.prems])
  from Cons.IH [OF this] show ?case by simp
qed

lemma merge_keyed: "keyed (mergeByPlain arr1 arr2)"
proof -
  have "keyed []" by (simp add: keyed_def)
  then show ?thesis
    unfolding mergeByPlain_def by (intro fold_push_keyed)
qed

lemma keyed_value_get:
  assumes "keyed m"
  shows "r \<in> set (mapValues m) \<longleftrightarrow> mapGet m (rowKey r) = Some r"
proof
  assume "r \<in> set (mapValues m)"
  then obtain k where kr: "(k, r) \<in> set m" by (auto simp add: mapValues_def)
  then have "k = rowKey r" using assms by (auto simp add: keyed_def list_all_iff)
  with kr assms show "mapGet m (rowKey r) = Some r"
    by (simp add: mapGet_def keyed_def)
next
  assume "mapGet m (rowKey r) = Some r"
  then have "(rowKey r, r) \<in> set m" by (simp add: mapGet_def map_of_SomeD)
  then show "r \<in> set (mapValues m)" by (force simp add: mapValues_def)
qed

text \<open>
  Claim C1.  Let a row \<open>p\<close> of the primary source and a row \<open>s\<close> of the secondary source
  have the same plain key \<open>k\<close> and different canonical ids.  Then the entry of the merged
  map for \<open>k\<close> is a row of the secondary source, namely the first row of \<open>arr2\<close> with that
  key, and this row is in the built list; when \<open>s\<close> is the only row of the secondary
  source with the key \<open>k\<close>, the entry is \<open>s\<close> and \<open>p\<close> is not in the built list.
\<close>

theorem secondary_wins_on_collision:
  assumes "p \<in> set arr1" and "s \<in> set arr2" and "rowKey p = k" and "rowKey s = k"
    and "cik p \<noteq> cik s"
  shows "\<exists>s'. find (\<lambda>r. rowKey r = k) arr2 = Some s'
      \<and> s' \<in> set arr2 \<and> rowKey s' = k
      \<and> mapGet (mergeByPlain arr1 arr2) k = Some s'
      \<and> s' \<in> set (mapValues (mergeByPlain arr1 arr2))
      \<and> ((\<forall>r\<in>set arr2. rowKey r = k \<longrightarrow> r = s) \<longrightarrow>
           s' = s \<and> p \<notin> set (mapValues (mergeByPlain arr1 arr2)))"
proof -
  obtain s' where f: "find (\<lambda>r. rowKey r = k) arr2 = Some s'"
    using assms(2,4) by (cases "find (\<lambda>r. rowKey r = k) arr2") (auto simp add: find_None_iff)
  have in2: "s' \<in> set arr2" and ks: "rowKey s' = k"
    using f by (auto simp add: find_Some_iff)
  have g: "mapGet (mergeByPlain arr1 arr2) k = Some s'"
    by (simp add: merge_get f)
  have v: "s' \<in> set (mapValues (mergeByPlain arr1 arr2))"
    using keyed_value_get [OF merge_keyed, of s' arr1 arr2] g ks by simp
  have u: "s' = s \<and> p \<notin> set (mapValues (mergeByPlain arr1 arr2))"
    if only: "\<forall>r\<in>set arr2. rowKey r = k \<longrightarrow> r = s"
  proof -
    have e: "s' = s" using only in2 ks by blast
    have "p \<noteq> s" using assms(5) by auto
    then have "mapGet (mergeByPlain arr1 arr2) (rowKey p) \<noteq> Some p"
      using g e assms(3) by simp
    then show ?thesis
      using keyed_value_get [OF merge_keyed, of p arr1 arr2] e by simp
  qed
  show ?thesis using f in2 ks g v u by blast
qed


text \<open>The rows \<open>BRK.B\<close> of the primary and \<open>BRK-B\<close> of the secondary source, both with the key \<open>BRKB\<close>.\<close>

theorem secondary_wins_on_collision_witness:
  "mapGet (mergeByPlain [\<lparr>ticker = ''BRK.B'', cik = ''0000000001'', name = ''Primary''\<rparr>]
                        [\<lparr>ticker = ''BRK-B'', cik = ''0000000002'', name = ''Secondary''\<rparr>]) ''BRKB''
     = Some \<lparr>ticker = ''BRK-B'', cik = ''0000000002'', name = ''Secondary''\<rparr>
   \<and> mapValues (mergeByPlain [\<lparr>ticker = ''BRK.B'', cik = ''0000000001'', name = ''Primary''\<rparr>]
                        [\<lparr>ticker = ''BRK-B'', cik = ''0000000002'', name = ''Secondary''\<rparr>])
     = [\<lparr>ticker = ''BRK-B'', cik = ''0000000002'', name = ''Secondary''\<rparr>]"
proof -
  let ?p = "\<lparr>ticker = ''BRK.B'', cik = ''0000000001'', name = ''Primary''\<rparr>"
  let ?s = "\<lparr>ticker = ''BRK-B'', cik = ''0000000002'', name = ''Secondary''\<rparr>"
  have kp: "rowKey ?p = ''BRKB''" by code_simp
  have ks: "rowKey ?s = ''BRKB''" by code_simp
  have vals: "mapValues (mergeByPlain [?p] [?s]) = [?s]" by code_simp
  from secondary_wins_on_collision [of ?p "[?p]" ?s "[?s]" "''BRKB''", OF _ _ kp ks]
  have "mapGet (mergeByPlain [?p] [?s]) ''BRKB'' = Some ?s" by auto
  with vals show ?thesis by simp
qed

section \<open>The filings handler: isolation of a failed document fetch\<close>

lemma filingsLoop_length: "length (filingsLoop c n nm docs i rs) = length rs"
  by (induction rs arbitrary: i) simp_all

lemma filingsLoop_nth:
  "j < length rs \<Longrightarrow>
   filingsLoop c n nm docs i rs ! j = filingOf c n nm (rs ! j) (docs (i + j))"
proof (induction rs arbitrary: i j)
  case Nil
  then show ?case by simp
next
  case (Cons r rs)
  then show ?case by (cases j) simp_all
qed

lemma filingsGET_length:
  "length (filingsGET cikParam cikNum nm recent docs) = min 12 (length recent)"
  by (simp add: filingsGET_def Let_def filingsLoop_length)

lemma filingsGET_nth:
  assumes "j < min 12 (length recent)"
  shows "filingsGET cikParam cikNum nm recent docs ! j =
     filingOf (zeroPadCIK cikParam) cikNum nm (recent ! j) (docs j)"
  using assms by (simp add: filingsGET_def Let_def filingsLoop_nth)

lemma enrichDoc_failed:
  "t = DocThrows \<or> t = DocNotOk \<Longrightarrow> enrichDoc form t = ([], [], None)"
  by (auto simp add: enrichDoc_def)

lemma filingOf_failed:
  assumes "t = DocThrows \<or> t = DocNotOk"
  shows "filingOf c n nm r t = (filingOf c n nm r t')\<lparr>f_items := [], f_badges := [], amount_usd := None\<rparr>"
  using assms by (auto simp add: filingOf_def Let_def enrichDoc_failed)

text \<open>
  Claim C9.  When the fetch of the primary document of entry \<open>i\<close> fails (it throws, or the
  status is not ok), the handler still returns one record per entry, in the order of the
  entries; the record of entry \<open>i\<close> has no items, no badges and no amount, and is
  otherwise the record that any other outcome \<open>t\<close> of that fetch would have given; the
  records of all other entries are what they would have been.  The loop has no path on
  which a failed document fetch ends it.
\<close>

theorem degraded_enrichment_isolated:
  assumes "docs i = DocThrows \<or> docs i = DocNotOk"
    and "i < min 12 (length recent)"
  shows "length (filingsGET cikParam cikNum nm recent docs) = min 12 (length recent)
    \<and> length (filingsGET cikParam cikNum nm recent (docs(i := t))) = min 12 (length recent)
    \<and> f_items (filingsGET cikParam cikNum nm recent docs ! i) = []
    \<and> f_badges (filingsGET cikParam cikNum nm recent docs ! i) = []
    \<and> amount_usd (filingsGET cikParam cikNum nm recent docs ! i) = None
    \<and> filingsGET cikParam cikNum nm recent docs ! i =
        (filingsGET cikParam cikNum nm recent (docs(i := t)) ! i)
          \<lparr>f_items := [], f_badges := [], amount_usd := None\<rparr>
    \<and> (\<forall>j < min 12 (length recent). j \<noteq> i \<longrightarrow>
          filingsGET cikParam cikNum nm recent docs ! j =
          filingsGET cikParam cikNum nm recent (docs(i := t)) ! j)"
proof -
  have same: "filingsGET cikParam cikNum nm recent docs ! i =
        (filingsGET cikParam cikNum nm recent (docs(i := t)) ! i)
          \<lparr>f_items := [], f_badges := [], amount_usd := None\<rparr>"
    using filingOf_failed [OF assms(1)] by (simp add: filingsGET_nth [OF assms(2)])
  have others: "\<forall>j < min 12 (length recent). j \<noteq> i \<longrightarrow>
          filingsGET cikParam cikNum nm recent docs ! j =
          filingsGET cikParam cikNum nm recent (docs(i := t)) ! j"
    by (simp add: filingsGET_nth)
  have empty: "f_items (filingsGET cikParam cikNum nm recent docs ! i) = []
    \<and> f_badges (filingsGET cikParam cikNum nm recent docs ! i) = []
    \<and> amount_usd (filingsGET cikParam cikNum nm recent docs ! i) = None"
    by (subst same)+ simp
  show ?thesis using same others empty by (simp add: filingsGET_length)
qed

text \<open>A batch of two: the first fetch throws, the second entry is still enriched.\<close>

theorem degraded_enrichment_isolated_witness:
  "length (filingsGET ''320193'' ''320193'' ''Apple Inc.'' [report8K, prospectus] firstFetchFails) = 2
   \<and> f_items (filingsGET ''320193'' ''320193'' ''Apple Inc.'' [report8K, prospectus] firstFetchFails ! 0) = []
   \<and> f_badges (filingsGET ''320193'' ''320193'' ''Apple Inc.'' [report8K, prospectus] firstFetchFails ! 0) = []
   \<and> amount_usd (filingsGET ''320193'' ''320193'' ''Apple Inc.'' [report8K, prospectus] firstFetchFails ! 0) = None
   \<and> amount_usd (filingsGET ''320193'' ''320193'' ''Apple Inc.'' [report8K, prospectus] firstFetchFails ! 1)
       = Some 2000000
   \<and> f_badges (filingsGET ''320193'' ''320193'' ''Apple Inc.'' [report8K, prospectus]
        (firstFetchFails(0 := DocText ''<b>Item 5.02</b> Departure'')) ! 0)
       = [''Executive Change (Item 5.02)'']
   \<and> filingsGET ''320193'' ''320193'' ''Apple Inc.'' [report8K, prospectus] firstFetchFails ! 1
       = filingsGET ''320193'' ''320193'' ''Apple Inc.'' [report8K, prospectus]
           (firstFetchFails(0 := DocText ''<b>Item 5.02</b> Departure'')) ! 1"
proof -
  have h1: "firstFetchFails 0 = DocThrows \<or> firstFetchFails 0 = DocNotOk"
    by (simp add: firstFetchFails_def)
  have h2: "0 < min 12 (length [report8K, prospectus])" by simp
  have a: "amount_usd (filingsGET ''320193'' ''320193'' ''Apple Inc.'' [report8K, prospectus]
      firstFetchFails ! 1) = Some 2000000"
    by code_simp
  have b: "f_badges (filingsGET ''320193'' ''320193'' ''Apple Inc.'' [report8K, prospectus]
        (firstFetchFails(0 := DocText ''<b>Item 5.02</b> Departure'')) ! 0)
       = [''Executive Change (Item 5.02)'']"
    by code_simp
  show ?thesis
    using degraded_enrichment_isolated [of firstFetchFails 0 "[report8K, prospectus]"
        "''320193''" "''320193''" "''Apple Inc.''" "DocText ''<b>Item 5.02</b> Departure''",
        OF h1 h2] a b
    by simp
qed

section \<open>The amount extractor: the maximum over all matches\<close>











text \<open>
  What stands behind an amount belongs to the match: a word that begins with \<open>m\<close> is read
  as the scale letter.
\<close>

lemma extractLargestAmount_scale_letter:
  "extractLargestAmount ''$10,000,000 more'' = Some 10000000000000"
proof -
  have m: "execAll amountAt 0 ''$10,000,000 more'' = [(''10,000,000'', ''m'')]"
    by code_simp
  show ?thesis
    unfolding extractLargestAmount_def m
    by (simp add: amountStep_def parseFloat_def isDigit_def digitsValue_def
        toLowerCase_def toLowerChar_def Let_def)
qed

section \<open>The item-code detector: spellings, items and badges\<close>

subsection \<open>Letter case of single characters\<close>

lemma upper_I: "toUpperChar c = CHR ''I'' \<longleftrightarrow> c = CHR ''i'' \<or> c = CHR ''I''"
  by (simp add: toUpperChar_def)

lemma lower_i: "toLowerChar c = CHR ''i'' \<longleftrightarrow> c = CHR ''i'' \<or> c = CHR ''I''"
  by (simp add: toLowerChar_def)

lemma lower_t: "toLowerChar c = CHR ''t'' \<longleftrightarrow> c = CHR ''t'' \<or> c = CHR ''T''"
  by (simp add: toLowerChar_def)

lemma lower_e: "toLowerChar c = CHR ''e'' \<longleftrightarrow> c = CHR ''e'' \<or> c = CHR ''E''"
  by (simp add: toLowerChar_def)

lemma lower_m: "toLowerChar c = CHR ''m'' \<longleftrightarrow> c = CHR ''m'' \<or> c = CHR ''M''"
  by (simp add: toLowerChar_def)

lemma lower_changes: "toLowerChar c \<noteq> c \<Longrightarrow> toLowerChar c \<in> set ''abcdefghijklmnopqrstuvwxyz''"
  by (simp add: toLowerChar_def split: if_splits)

lemma lower_keeps:
  assumes "toLowerChar c = d" and "d \<notin> set ''abcdefghijklmnopqrstuvwxyz''"
  shows "c = d"
  using assms lower_changes [of c] by metis


lemma digit_not_letter: "isDigit d \<Longrightarrow> d \<notin> set ''abcdefghijklmnopqrstuvwxyz''"
  unfolding isDigit_def by (elim disjE | simp)+

lemma upper_of_lower_i: "toLowerChar a = CHR ''i'' \<Longrightarrow> toUpperChar a = CHR ''I''"
proof -
  assume "toLowerChar a = CHR ''i''"
  then have "a = CHR ''i'' \<or> a = CHR ''I''" by (simp only: lower_i)
  then show ?thesis
  proof
    assume "a = CHR ''i''" then show ?thesis by (simp add: toUpperChar_def)
  next
    assume "a = CHR ''I''" then show ?thesis by (simp add: toUpperChar_def)
  qed
qed

lemma upper_of_lower_t: "toLowerChar a = CHR ''t'' \<Longrightarrow> toUpperChar a = CHR ''T''"
proof -
  assume "toLowerChar a = CHR ''t''"
  then have "a = CHR ''t'' \<or> a = CHR ''T''" by (simp only: lower_t)
  then show ?thesis
  proof
    assume "a = CHR ''t''" then show ?thesis by (simp add: toUpperChar_def)
  next
    assume "a = CHR ''T''" then show ?thesis by (simp add: toUpperChar_def)
  qed
qed

lemma upper_of_lower_e: "toLowerChar a = CHR ''e'' \<Longrightarrow> toUpperChar a = CHR ''E''"
proof -
  assume "toLowerChar a = CHR ''e''"
  then have "a = CHR ''e'' \<or> a = CHR ''E''" by (simp only: lower_e)
  then show ?thesis
  proof
    assume "a = CHR ''e''" then show ?thesis by (simp add: toUpperChar_def)
  next
    assume "a = CHR ''E''" then show ?thesis by (simp add: toUpperChar_def)
  qed
qed

lemma upper_of_lower_m: "toLowerChar a = CHR ''m'' \<Longrightarrow> toUpperChar a = CHR ''M''"
proof -
  assume "toLowerChar a = CHR ''m''"
  then have "a = CHR ''m'' \<or> a = CHR ''M''" by (simp only: lower_m)
  then show ?thesis
  proof
    assume "a = CHR ''m''" then show ?thesis by (simp add: toUpperChar_def)
  next
    assume "a = CHR ''M''" then show ?thesis by (simp add: toUpperChar_def)
  qed
qed

lemma upper_of_item:
  assumes "toLowerChar a = CHR ''i''" and "toLowerChar b = CHR ''t''"
    and "toLowerChar c = CHR ''e''" and "toLowerChar d = CHR ''m''"
  shows "toUpperCase [a, b, c, d] = ''ITEM''"
  using upper_of_lower_i [OF assms(1)] upper_of_lower_t [OF assms(2)]
    upper_of_lower_e [OF assms(3)] upper_of_lower_m [OF assms(4)]
  by (simp add: toUpperCase_def)

subsection \<open>The spellings of a code\<close>

lemma spelling_shape:
  assumes "toLowerCase w = [CHR ''i'', CHR ''t'', CHR ''e'', CHR ''m'', CHR '' '', x, CHR ''.'', y, z]"
    and "isDigit x" and "isDigit y" and "isDigit z"
  shows "\<exists>a b c d. w = [a, b, c, d, CHR '' '', x, CHR ''.'', y, z]
      \<and> toUpperCase [a, b, c, d] = ''ITEM''"
proof -
  from assms(1) obtain a b c d e f g h i where
    w: "w = [a, b, c, d, e, f, g, h, i]"
    by (auto simp add: toLowerCase_def map_eq_Cons_conv)
  from assms(1) w have l:
    "toLowerChar a = CHR ''i''" "toLowerChar b = CHR ''t''" "toLowerChar c = CHR ''e''"
    "toLowerChar d = CHR ''m''" "toLowerChar e = CHR '' ''" "toLowerChar f = x"
    "toLowerChar g = CHR ''.''" "toLowerChar h = y" "toLowerChar i = z"
    by (simp_all add: toLowerCase_def)
  have e: "e = CHR '' ''" by (rule lower_keeps [OF l(5)]) simp
  have f: "f = x" by (rule lower_keeps [OF l(6) digit_not_letter [OF assms(2)]])
  have g: "g = CHR ''.''" by (rule lower_keeps [OF l(7)]) simp
  have h: "h = y" by (rule lower_keeps [OF l(8) digit_not_letter [OF assms(3)]])
  have i: "i = z" by (rule lower_keeps [OF l(9) digit_not_letter [OF assms(4)]])
  have u: "toUpperCase [a, b, c, d] = ''ITEM''"
    by (rule upper_of_item [OF l(1) l(2) l(3) l(4)])
  show ?thesis using w e f g h i u by blast
qed

lemma itemAt_spelling:
  assumes "toUpperCase [a, b, c, d] = ''ITEM''" and "isDigit x" and "isDigit y" and "isDigit z"
  shows "itemAt ([a, b, c, d, CHR '' '', x, CHR ''.'', y, z] @ post)
     = Some (9, [a, b, c, d, CHR '' '', x, CHR ''.'', y, z])"
proof -
  have nsx: "\<not> isSpace x" using assms(2) by (auto simp add: isDigit_def isSpace_def)
  have nd: "\<not> isDigit (CHR ''.'')" by (simp add: isDigit_def)
  have sp: "isSpace (CHR '' '')" by (simp add: isSpace_def)
  show ?thesis
    using assms nsx nd sp by (simp add: itemAt_def Let_def)
qed

subsection \<open>The search finds every spelling\<close>

text \<open>
  Behind its first letter a match holds the letters \<open>t\<close>, \<open>e\<close>, \<open>m\<close>, white space, digits
  and a dot, so no match reaches over the first letter of a later one.
\<close>

lemma space_not_I: "isSpace c \<Longrightarrow> toUpperChar c \<noteq> CHR ''I''"
  unfolding upper_I isSpace_def by (elim disjE | simp)+

lemma digit_not_I: "isDigit c \<Longrightarrow> toUpperChar c \<noteq> CHR ''I''"
  unfolding upper_I isDigit_def by (elim disjE | simp)+

lemma itemAt_shape:
  assumes "itemAt s = Some (n, m)"
  shows "m = take n s \<and> 1 \<le> n
    \<and> (\<forall>c\<in>set (take (n - 1) (tl s)). toUpperChar c \<noteq> CHR ''I'')"
proof -
  define ws where "ws = takeWhile isSpace (drop 4 s)"
  define r1 where "r1 = dropWhile isSpace (drop 4 s)"
  define major where "major = takeWhile isDigit r1"
  define r2 where "r2 = dropWhile isDigit r1"
  have cond: "toUpperCase (take 4 s) = ''ITEM'' \<and> startsWith r2 ''.'' \<and> 3 \<le> length r2
      \<and> isDigit (r2 ! 1) \<and> isDigit (r2 ! 2)
      \<and> n = 4 + length ws + length major + 3 \<and> m = take n s"
    using assms unfolding itemAt_def Let_def ws_def r1_def major_def r2_def
    by (auto split: if_splits)
  then have n: "n = 4 + length ws + length major + 3" and m: "m = take n s" by simp_all
  have split: "s = take 4 s @ ws @ major @ r2"
    by (simp add: ws_def r1_def major_def r2_def)
  from cond obtain a b c d where w4: "take 4 s = [a, b, c, d]"
    and up: "toUpperChar b = CHR ''T''" "toUpperChar c = CHR ''E''" "toUpperChar d = CHR ''M''"
    by (auto simp add: toUpperCase_def map_eq_Cons_conv)
  from cond obtain y z r3 where r2: "r2 = CHR ''.'' # y # z # r3" and dy: "isDigit y" and dz: "isDigit z"
    by (cases r2; cases "tl r2"; cases "tl (tl r2)") auto
  have s': "s = [a, b, c, d] @ ws @ major @ [CHR ''.'', y, z] @ r3"
    using split w4 r2 by simp
  have e1: "tl s = ([b, c, d] @ ws @ major @ [CHR ''.'', y, z]) @ r3"
    by (subst s') simp
  have e2: "n - 1 = length ([b, c, d] @ ws @ major @ [CHR ''.'', y, z])"
    by (simp add: n)
  have tls: "take (n - 1) (tl s) = [b, c, d] @ ws @ major @ [CHR ''.'', y, z]"
    by (metis e1 e2 append_eq_conv_conj)
  have sp: "\<forall>x\<in>set ws. toUpperChar x \<noteq> CHR ''I''"
    using space_not_I by (auto simp add: ws_def dest: set_takeWhileD)
  have dg: "\<forall>x\<in>set major. toUpperChar x \<noteq> CHR ''I''"
    using digit_not_I by (auto simp add: major_def dest: set_takeWhileD)
  have dot: "toUpperChar (CHR ''.'') \<noteq> CHR ''I''" by (simp add: toUpperChar_def)
  have "\<forall>x\<in>set (take (n - 1) (tl s)). toUpperChar x \<noteq> CHR ''I''"
    unfolding tls using up sp dg dot digit_not_I [OF dy] digit_not_I [OF dz] by auto
  with m n show ?thesis by simp
qed

lemma execAll_finds:
  assumes "itemAt (w @ post) = Some (length w, w)" and "w \<noteq> []"
    and "toUpperChar (hd w) = CHR ''I''"
  shows "\<forall>c\<in>set (take k (pre @ w @ post)). toUpperChar c \<noteq> CHR ''I'' \<Longrightarrow>
    w \<in> set (execAll itemAt k (pre @ w @ post))"
proof (induction pre arbitrary: k)
  case Nil
  obtain c cs where w: "w = c # cs" using assms(2) by (cases w) auto
  have k: "k = 0"
  proof (cases k)
    case 0
    then show ?thesis .
  next
    case (Suc k')
    with Nil w assms(3) show ?thesis by simp
  qed
  have "itemAt (c # cs @ post) = Some (length w, w)" using assms(1) w by simp
  then show ?case using k w by simp
next
  case (Cons x pre)
  show ?case
  proof (cases k)
    case (Suc k')
    have "\<forall>c\<in>set (take k' (pre @ w @ post)). toUpperChar c \<noteq> CHR ''I''"
      using Cons.prems Suc by simp
    from Cons.IH [OF this] show ?thesis using Suc by simp
  next
    case 0
    show ?thesis
    proof (cases "itemAt (x # pre @ w @ post)")
      case None
      have "w \<in> set (execAll itemAt 0 (pre @ w @ post))"
        by (rule Cons.IH) simp
      then show ?thesis using 0 None by simp
    next
      case (Some nm)
      obtain n m where nm: "nm = (n, m)" by (cases nm)
      from itemAt_shape [of "x # pre @ w @ post" n m] Some nm
      have "\<forall>c\<in>set (take (n - 1) (pre @ w @ post)). toUpperChar c \<noteq> CHR ''I''"
        by simp
      from Cons.IH [OF this] show ?thesis using 0 Some nm by simp
    qed
  qed
qed

subsection \<open>Items and badges\<close>

lemma execAll_finds_spelling:
  assumes "toLowerCase w = [CHR ''i'', CHR ''t'', CHR ''e'', CHR ''m'', CHR '' '', x, CHR ''.'', y, z]"
    and "isDigit x" and "isDigit y" and "isDigit z"
  shows "w \<in> set (execAll itemAt 0 (pre @ w @ post))"
proof -
  from spelling_shape [OF assms] obtain a b c d
    where w: "w = [a, b, c, d, CHR '' '', x, CHR ''.'', y, z]"
      and u: "toUpperCase [a, b, c, d] = ''ITEM''"
    by blast
  have m: "itemAt (w @ post) = Some (length w, w)"
    using itemAt_spelling [OF u assms(2-4), of post] by (simp add: w)
  have h: "toUpperChar (hd w) = CHR ''I''"
    using u by (simp add: w toUpperCase_def)
  have ne: "w \<noteq> []" by (simp add: w)
  show ?thesis
    by (rule execAll_finds [OF m ne h]) simp
qed

lemma detectItems_items: "set (items (detectItems text)) = set (execAll itemAt 0 text)
    \<and> distinct (items (detectItems text))"
  by (simp add: detectItems_def Let_def uniq_set uniq_distinct)

lemma detectItems_badges:
  "badges (detectItems text) =
     (if ''item 1.01'' \<in> toLowerCase ` set (items (detectItems text))
      then [''Material Agreement (Item 1.01)''] else [])
     @ (if ''item 5.02'' \<in> toLowerCase ` set (items (detectItems text))
        then [''Executive Change (Item 5.02)''] else [])"
  by (simp add: detectItems_def Let_def)

text \<open>
  Claim C7 says that the items are the codes in a normal letter case and that a code found
  more than once is listed once.  The items are the matched texts as they stand, and
  duplicates are dropped by equality of strings: codes spelled in different letter cases
  stay as they are spelled, and a code spelled in two ways is listed twice.
\<close>

theorem detectItems_case_counterexample:
  "items (detectItems ''ITEM 1.01 and item 5.02'') = [''ITEM 1.01'', ''item 5.02'']
   \<and> items (detectItems ''Item 1.01 then ITEM 1.01'') = [''Item 1.01'', ''ITEM 1.01'']"
  by code_simp

text \<open>
  Claim C7, amended.  When a text contains a spelling of \<open>Item 1.01\<close> and a spelling of
  \<open>Item 5.02\<close> (the word in any letter case, one space), the items contain both as they
  are spelled in the text, the badges are the Material Agreement badge and the Executive
  Change badge, and no string occurs twice in the items.
\<close>

theorem detectItems_keeps_spellings:
  assumes "text = pre1 @ w1 @ post1" and "toLowerCase w1 = ''item 1.01''"
    and "text = pre2 @ w2 @ post2" and "toLowerCase w2 = ''item 5.02''"
  shows "w1 \<in> set (items (detectItems text)) \<and> w2 \<in> set (items (detectItems text))
    \<and> badges (detectItems text) = [''Material Agreement (Item 1.01)'', ''Executive Change (Item 5.02)'']
    \<and> distinct (items (detectItems text))"
proof -
  have d0: "isDigit (CHR ''0'')" and d1: "isDigit (CHR ''1'')"
    and d2: "isDigit (CHR ''2'')" and d5: "isDigit (CHR ''5'')"
    by (simp_all add: isDigit_def)
  have f1: "w1 \<in> set (execAll itemAt 0 (pre1 @ w1 @ post1))"
    by (rule execAll_finds_spelling [OF _ d1 d0 d1]) (simp add: assms(2))
  have f2: "w2 \<in> set (execAll itemAt 0 (pre2 @ w2 @ post2))"
    by (rule execAll_finds_spelling [OF _ d5 d0 d2]) (simp add: assms(4))
  have i1: "w1 \<in> set (items (detectItems text))"
    using f1 detectItems_items [of "text"] assms(1) by simp
  have i2: "w2 \<in> set (items (detectItems text))"
    using f2 detectItems_items [of "text"] assms(3) by simp
  have l1: "''item 1.01'' \<in> toLowerCase ` set (items (detectItems text))"
    using i1 assms(2) by (metis imageI)
  have l2: "''item 5.02'' \<in> toLowerCase ` set (items (detectItems text))"
    using i2 assms(4) by (metis imageI)
  have b: "badges (detectItems text) =
      [''Material Agreement (Item 1.01)'', ''Executive Change (Item 5.02)'']"
    by (subst detectItems_badges) (simp only: l1 l2 if_True append.simps)
  show ?thesis using i1 i2 b detectItems_items [of "text"] by blast
qed

text \<open>A text with mark-up, the two codes in different letter cases and a third code.\<close>

theorem detectItems_keeps_spellings_witness:
  "''ITEM 1.01'' \<in> set (items (detectItems ''<b>ITEM 1.01</b> Entry; item 5.02 Departure; Item 9.01''))
   \<and> ''item 5.02'' \<in> set (items (detectItems ''<b>ITEM 1.01</b> Entry; item 5.02 Departure; Item 9.01''))
   \<and> badges (detectItems ''<b>ITEM 1.01</b> Entry; item 5.02 Departure; Item 9.01'')
       = [''Material Agreement (Item 1.01)'', ''Executive Change (Item 5.02)'']
   \<and> items (detectItems ''<b>ITEM 1.01</b> Entry; item 5.02 Departure; Item 9.01'')
       = [''ITEM 1.01'', ''item 5.02'', ''Item 9.01'']"
proof -
  have t1: "''<b>ITEM 1.01</b> Entry; item 5.02 Departure; Item 9.01''
      = ''<b>'' @ ''ITEM 1.01'' @ ''</b> Entry; item 5.02 Departure; Item 9.01''"
    by simp
  have t2: "''<b>ITEM 1.01</b> Entry; item 5.02 Departure; Item 9.01''
      = ''<b>ITEM 1.01</b> Entry; '' @ ''item 5.02'' @ '' Departure; Item 9.01''"
    by simp
  have c1: "toLowerCase ''ITEM 1.01'' = ''item 1.01''" by code_simp
  have c2: "toLowerCase ''item 5.02'' = ''item 5.02''" by code_simp
  have all: "items (detectItems ''<b>ITEM 1.01</b> Entry; item 5.02 Departure; Item 9.01'')
       = [''ITEM 1.01'', ''item 5.02'', ''Item 9.01'']"
    by code_simp
  from detectItems_keeps_spellings [OF t1 c1 t2 c2] all show ?thesis by blast
qed

section \<open>The resolver: variants of a symbol\<close>

subsection \<open>Upper-casing and the replacements commute\<close>














subsection \<open>The variants of a symbol\<close>






subsection \<open>The lookup of a symbol\<close>






text \<open>
  The other two conditions are needed as well: \<open>trim\<close> acts on the query before the dots
  are removed, and an empty query is refused.
\<close>

lemma resolve_variant_other_conditions:
  "resolve [\<lparr>ticker = ''AB .'', cik = ''0000000007'', name = ''Seven''\<rparr>] ''AB .'' = Some ''0000000007''
   \<and> resolve [\<lparr>ticker = ''AB .'', cik = ''0000000007'', name = ''Seven''\<rparr>] ''AB '' = None
   \<and> resolve [\<lparr>ticker = ''.'', cik = ''0000000008'', name = ''Eight''\<rparr>] ''.'' = Some ''0000000008''
   \<and> resolve [\<lparr>ticker = ''.'', cik = ''0000000008'', name = ''Eight''\<rparr>] [] = None"
  by code_simp

section \<open>The autocomplete ranker: scores and order\<close>

subsection \<open>The stable sort\<close>

lemma insertBy_mset: "mset (insertBy le x ys) = add_mset x (mset ys)"
  by (induction ys) simp_all

lemma sortBy_mset: "mset (sortBy le xs) = mset xs"
  by (induction xs) (simp_all add: sortBy_def insertBy_mset)

lemma insertBy_set: "set (insertBy le x ys) = insert x (set ys)"
  by (induction ys) auto

lemma sortBy_set: "set (sortBy le xs) = set xs"
  by (induction xs) (simp_all add: sortBy_def insertBy_set)

lemma insertBy_sorted:
  assumes "totalOrder le" and "sorted_wrt le ys"
  shows "sorted_wrt le (insertBy le x ys)"
  using assms(2)
proof (induction ys)
  case Nil
  then show ?case by simp
next
  case (Cons y ys)
  have tot: "\<And>a b. le a b \<or> le b a" and tr: "\<And>a b c. le a b \<Longrightarrow> le b c \<Longrightarrow> le a c"
    using assms(1) by (auto simp add: totalOrder_def)
  show ?case
  proof (cases "le x y")
    case True
    have "\<forall>z\<in>set ys. le x z" using Cons.prems True tr by auto
    then show ?thesis using True Cons.prems by simp
  next
    case False
    then have yx: "le y x" using tot by blast
    have "sorted_wrt le (insertBy le x ys)" using Cons by simp
    then show ?thesis using False yx Cons.prems by (simp add: insertBy_set)
  qed
qed

lemma sortBy_sorted:
  assumes "totalOrder le"
  shows "sorted_wrt le (sortBy le xs)"
proof (induction xs)
  case Nil
  then show ?case by (simp add: sortBy_def)
next
  case (Cons x xs)
  have "sortBy le (x # xs) = insertBy le x (sortBy le xs)" by (simp add: sortBy_def)
  then show ?case using insertBy_sorted [OF assms Cons] by simp
qed



lemma sliceTo_map: "map f (sliceTo limit xs) = sliceTo limit (map f xs)"
  by (cases limit) (simp_all add: sliceTo_def take_map)

lemma sliceTo_take: "\<exists>n. sliceTo limit xs = take n xs"
proof (cases limit)
  case NaN
  then have "sliceTo limit xs = take 0 xs" by (simp add: sliceTo_def)
  then show ?thesis by blast
next
  case (Num n)
  then show ?thesis by (auto simp add: sliceTo_def)
qed

subsection \<open>The scoring table\<close>

text \<open>
  All variants of a ticker have the same plain key, so the three ticker rules compare the
  plain key of the row with the plain key of the query.
\<close>

lemma scoreRow_table:
  "scoreRow q row =
     (if rowKey row = plainKey (trim (toUpperCase q)) then 100
      else if startsWith (rowKey row) (plainKey (trim (toUpperCase q))) then 90
      else if includesStr (rowKey row) (plainKey (trim (toUpperCase q))) then 75
      else if startsWith (toUpperCase (name row)) (trim (toUpperCase q)) then 65
      else if includesStr (toUpperCase (name row)) (trim (toUpperCase q)) then 50
      else 0)"
proof -
  have k: "set (map plainKey (norms (ticker row))) = {rowKey row}"
    using norms_keys [of "ticker row"] by (simp add: rowKey_def)
  have m: "\<And>x. (x \<in> set (map plainKey (norms (ticker row)))) = (rowKey row = x)"
    unfolding k by auto
  have e: "\<And>P. list_ex P (map plainKey (norms (ticker row))) = P (rowKey row)"
    unfolding list_ex_iff k by simp
  show ?thesis
    unfolding scoreRow_def Let_def m e by simp
qed

text \<open>The comparator of the ranked search is a total order on the scored rows.\<close>

lemma score_order_total:
  "totalOrder (\<lambda>a b :: Row \<times> nat. int (snd b) - int (snd a) \<le> 0)"
  by (auto simp add: totalOrder_def)

lemma upper_length: "length (toUpperCase s) = length s"
  by (simp add: toUpperCase_def)

lemma suggestGET_ranked:
  assumes "2 \<le> length (trim qParam)"
  shows "suggestGET lc list qParam limitParam =
     sliceTo (clampLimit limitParam)
       (map fst (sortBy (\<lambda>a b. int (snd b) - int (snd a) \<le> 0)
          (filter (\<lambda>x. snd x > 0) (map (\<lambda>row. (row, scoreRow (trim qParam) row)) list))))"
proof -
  have ne: "trim qParam \<noteq> []" using assms by auto
  have n1: "length (toUpperCase (trim qParam)) \<noteq> 1" using assms by (simp add: upper_length)
  show ?thesis
    unfolding suggestGET_def Let_def using ne n1 by (simp add: sliceTo_map)
qed

lemma scored_fst:
  "map fst (filter (\<lambda>x. snd x > 0) (map (\<lambda>row. (row, score row)) list))
     = filter (\<lambda>r. 0 < (score r :: nat)) list"
  by (induction list) simp_all

lemma ranked_list:
  fixes q :: string and list :: "Row list"
  defines "L \<equiv> map fst (sortBy (\<lambda>a b. int (snd b) - int (snd a) \<le> 0)
          (filter (\<lambda>x. snd x > 0) (map (\<lambda>row. (row, scoreRow q row)) list)))"
  shows "mset L = mset (filter (\<lambda>r. 0 < scoreRow q r) list)
    \<and> sorted_wrt (\<lambda>a b. scoreRow q b \<le> scoreRow q a) L"
proof -
  define le where "le = (\<lambda>(a :: Row \<times> nat) (b :: Row \<times> nat). int (snd b) - int (snd a) \<le> 0)"
  define S where "S = filter (\<lambda>x. snd x > 0) (map (\<lambda>row. (row, scoreRow q row)) list)"
  define P where "P = sortBy le S"
  have L: "L = map fst P" by (simp add: L_def P_def S_def le_def)
  have "mset P = mset S" unfolding P_def by (rule sortBy_mset)
  then have "mset (map fst P) = mset (map fst S)" by (simp only: mset_map)
  then have a: "mset L = mset (filter (\<lambda>r. 0 < scoreRow q r) list)"
    unfolding L S_def scored_fst .
  have tot: "totalOrder le" unfolding le_def by (rule score_order_total)
  have s: "sorted_wrt le P" unfolding P_def by (rule sortBy_sorted [OF tot])
  have setP: "set P = set S" unfolding P_def by (rule sortBy_set)
  have pairs: "\<And>x. x \<in> set P \<Longrightarrow> snd x = scoreRow q (fst x)"
    unfolding setP S_def by auto
  have "sorted_wrt (\<lambda>a b. scoreRow q (fst b) \<le> scoreRow q (fst a)) P"
  proof (rule sorted_wrt_mono_rel [OF _ s])
    fix x y
    assume "x \<in> set P" and "y \<in> set P" and "le x y"
    then show "scoreRow q (fst y) \<le> scoreRow q (fst x)"
      using pairs [of x] pairs [of y] by (simp add: le_def)
  qed
  then have b: "sorted_wrt (\<lambda>a b. scoreRow q b \<le> scoreRow q a) L"
    unfolding L by (simp add: sorted_wrt_map)
  show ?thesis using a b by simp
qed

lemma higher_score_first:
  assumes "sorted_wrt (\<lambda>a b. score b \<le> (score a :: nat)) L"
    and "a \<in> set L" and "j < length (take n L)" and "score (take n L ! j) < score a"
  shows "\<exists>i<j. take n L ! i = a"
proof -
  from assms(2) obtain i where i: "i < length L" "L ! i = a" by (auto simp add: in_set_conv_nth)
  have j: "j < length L" "j < n" "take n L ! j = L ! j" using assms(3) by simp_all
  have "i < j"
  proof (rule ccontr)
    assume "\<not> i < j"
    then have "j = i \<or> j < i" by auto
    then show False
    proof
      assume "j = i" with i j assms(4) show False by simp
    next
      assume "j < i"
      with assms(1) i(1) have "score (L ! i) \<le> score (L ! j)"
        by (simp add: sorted_wrt_iff_nth_less)
      with i j assms(4) show False by simp
    qed
  qed
  moreover have "take n L ! i = a" using \<open>i < j\<close> j i by simp
  ultimately show ?thesis by blast
qed

subsection \<open>The ranked search\<close>

lemma sliceTo_length: "length (sliceTo (clampLimit limitParam) xs) \<le> 300"
  by (cases limitParam) (simp_all add: sliceTo_def clampLimit_def)

text \<open>
  Claim C2.  Let the trimmed query \<open>q\<close> have at least two characters.  The score of a row
  follows the table: 100 when the plain key of its symbol is the plain key of the query,
  90 when it begins with it, 75 when it contains it, 65 when the upper-cased name begins
  with the upper-cased query, 50 when it contains it, and 0 otherwise.  The result is the
  list of the rows of positive score, sorted by descending score, cut to the limit (at
  most 300 rows).  When a row of the index scores 100, it stands in the result before
  every row of the result that scores 65 or less.
\<close>

theorem suggest_ranking:
  assumes "2 \<le> length (trim qParam)"
  shows "(\<forall>row. scoreRow (trim qParam) row =
       (if rowKey row = plainKey (trim (toUpperCase (trim qParam))) then 100
        else if startsWith (rowKey row) (plainKey (trim (toUpperCase (trim qParam)))) then 90
        else if includesStr (rowKey row) (plainKey (trim (toUpperCase (trim qParam)))) then 75
        else if startsWith (toUpperCase (name row)) (trim (toUpperCase (trim qParam))) then 65
        else if includesStr (toUpperCase (name row)) (trim (toUpperCase (trim qParam))) then 50
        else 0))
    \<and> (\<exists>L. mset L = mset (filter (\<lambda>r. 0 < scoreRow (trim qParam) r) list)
          \<and> sorted_wrt (\<lambda>a b. scoreRow (trim qParam) b \<le> scoreRow (trim qParam) a) L
          \<and> suggestGET lc list qParam limitParam = sliceTo (clampLimit limitParam) L)
    \<and> length (suggestGET lc list qParam limitParam) \<le> 300
    \<and> (\<forall>a\<in>set list. scoreRow (trim qParam) a = 100 \<longrightarrow>
          (\<forall>j<length (suggestGET lc list qParam limitParam).
             scoreRow (trim qParam) (suggestGET lc list qParam limitParam ! j) \<le> 65 \<longrightarrow>
             (\<exists>i<j. suggestGET lc list qParam limitParam ! i = a)))"
proof -
  define q where "q = trim qParam"
  define L where "L = map fst (sortBy (\<lambda>a b. int (snd b) - int (snd a) \<le> 0)
          (filter (\<lambda>x. snd x > 0) (map (\<lambda>row. (row, scoreRow q row)) list)))"
  define res where "res = suggestGET lc list qParam limitParam"
  have res: "res = sliceTo (clampLimit limitParam) L"
    unfolding res_def L_def q_def by (rule suggestGET_ranked [OF assms])
  have ml: "mset L = mset (filter (\<lambda>r. 0 < scoreRow q r) list)"
    and sl: "sorted_wrt (\<lambda>a b. scoreRow q b \<le> scoreRow q a) L"
    unfolding L_def using ranked_list [of q list] by simp_all
  have table: "\<forall>row. scoreRow q row =
       (if rowKey row = plainKey (trim (toUpperCase q)) then 100
        else if startsWith (rowKey row) (plainKey (trim (toUpperCase q))) then 90
        else if includesStr (rowKey row) (plainKey (trim (toUpperCase q))) then 75
        else if startsWith (toUpperCase (name row)) (trim (toUpperCase q)) then 65
        else if includesStr (toUpperCase (name row)) (trim (toUpperCase q)) then 50
        else 0)"
    using scoreRow_table [of q] by blast
  have ex: "\<exists>L. mset L = mset (filter (\<lambda>r. 0 < scoreRow q r) list)
          \<and> sorted_wrt (\<lambda>a b. scoreRow q b \<le> scoreRow q a) L
          \<and> res = sliceTo (clampLimit limitParam) L"
    using ml sl res by blast
  have len: "length res \<le> 300" unfolding res by (rule sliceTo_length)
  obtain n where n: "res = take n L" using res sliceTo_take [of "clampLimit limitParam" L] by auto
  have above: "\<forall>a\<in>set list. scoreRow q a = 100 \<longrightarrow>
          (\<forall>j<length res. scoreRow q (res ! j) \<le> 65 \<longrightarrow> (\<exists>i<j. res ! i = a))"
  proof (intro ballI impI allI)
    fix a j
    assume a: "a \<in> set list" "scoreRow q a = 100" and j: "j < length res" "scoreRow q (res ! j) \<le> 65"
    have "a \<in> set (filter (\<lambda>r. 0 < scoreRow q r) list)" using a by simp
    then have "a \<in># mset L" unfolding ml by simp
    then have inL: "a \<in> set L" by simp
    have lt: "scoreRow q (take n L ! j) < scoreRow q a" using j(2) a(2) n by simp
    from higher_score_first [OF sl inL _ lt] j(1) n show "\<exists>i<j. res ! i = a" by simp
  qed
  show ?thesis
    using table ex len above unfolding q_def res_def by blast
qed

text \<open>The exact ticker \<open>AAPL\<close> stands before a row that matches by name only.\<close>

theorem suggest_ranking_witness:
  "scoreRow ''aapl'' appleRow = 100
   \<and> scoreRow ''aapl'' aaplHoldings = 65
   \<and> suggestGET codeUnitCompare [aaplHoldings, appleRow] ''aapl'' (Num 50) = [appleRow, aaplHoldings]"
proof -
  have t: "trim ''aapl'' = ''aapl''" by code_simp
  have h: "2 \<le> length (trim ''aapl'')" by (simp add: t)
  have k: "rowKey appleRow = plainKey (trim (toUpperCase ''aapl''))" by code_simp
  have s1: "scoreRow ''aapl'' appleRow = 100"
    using suggest_ranking [OF h, of "[aaplHoldings, appleRow]" codeUnitCompare "Num 50"] k
    by (simp add: t)
  have s2: "scoreRow ''aapl'' aaplHoldings = 65" by code_simp
  have r: "suggestGET codeUnitCompare [aaplHoldings, appleRow] ''aapl'' (Num 50) = [appleRow, aaplHoldings]"
    by code_simp
  show ?thesis using s1 s2 r by simp
qed

subsection \<open>The query of one character\<close>






end
